theory Spec2Isabelle
  imports Main "HOL-Library.Char_ord" "HOL-Library.List_Lexorder" "HOL-Library.Word"
begin

section \<open>Values and containers\<close>

text \<open>
  A \<open>QVariant\<close> is modelled by the three shapes the engine touches: the invalid
  (default-constructed) variant, a string, and a nested string-keyed map.  A \<open>QVariantMap\<close>
  is a \<open>QMap<QString, QVariant>\<close>: an association list read by first match, with
  insertion in key order as \<open>QMap\<close> keeps it.  Comparing a variant with a string
  literal, as the slots do for \<open>msgid\<close> and \<open>hResult\<close>, holds exactly when the variant is
  that string; the invalid variant and a map equal no string.
\<close>

datatype qvariant = Invalid | QString string | QVariantMap "(string \<times> qvariant) list"

type_synonym qvariantmap = "(string \<times> qvariant) list"

text \<open>\<open>QMap::insert\<close> (and assignment through \<open>operator[]\<close>): replaces the value of a
  key that is present, otherwise inserts in key order.\<close>

fun qmap_insert :: "'k::linorder \<Rightarrow> 'v \<Rightarrow> ('k \<times> 'v) list \<Rightarrow> ('k \<times> 'v) list" where
  "qmap_insert k v [] = [(k, v)]"
| "qmap_insert k v (e # es) =
     (if k < fst e then (k, v) # e # es
      else if k = fst e then (k, v) # es
      else e # qmap_insert k v es)"

definition qmap_remove :: "'k \<Rightarrow> ('k \<times> 'v) list \<Rightarrow> ('k \<times> 'v) list" where
  "qmap_remove k m = filter (\<lambda>e. fst e \<noteq> k) m"

definition qmap_contains :: "('k \<times> 'v) list \<Rightarrow> 'k \<Rightarrow> bool" where
  "qmap_contains m k = (map_of m k \<noteq> None)"

text \<open>Reading \<open>msg[key]\<close>: the value, or an invalid variant when the key is absent.\<close>

definition qmap_value :: "qvariantmap \<Rightarrow> string \<Rightarrow> qvariant" where
  "qmap_value m k = (case map_of m k of None \<Rightarrow> Invalid | Some v \<Rightarrow> v)"

text \<open>The non-const \<open>operator[]\<close> default-constructs an entry for an absent key; this is
  the map it leaves behind.\<close>

definition qmap_index :: "qvariantmap \<Rightarrow> string \<Rightarrow> qvariantmap" where
  "qmap_index m k = (if qmap_contains m k then m else qmap_insert k Invalid m)"

definition toString :: "qvariant \<Rightarrow> string" where
  "toString v = (case v of QString s \<Rightarrow> s | _ \<Rightarrow> [])"

definition toMap :: "qvariant \<Rightarrow> qvariantmap" where
  "toMap v = (case v of QVariantMap m \<Rightarrow> m | _ \<Rightarrow> [])"

text \<open>\<open>QString::toUpper\<close> on the ASCII letters of a device class code.\<close>

definition toUpper_char :: "char \<Rightarrow> char" where
  "toUpper_char c =
     (if CHR ''a'' \<le> c \<and> c \<le> CHR ''z'' then char_of ((of_char c :: nat) - 32) else c)"

definition toUpper :: "string \<Rightarrow> string" where
  "toUpper s = map toUpper_char s"

text \<open>\<open>QString::split\<close> with the default of keeping empty parts.\<close>

fun qsplit :: "char \<Rightarrow> string \<Rightarrow> string list" where
  "qsplit sep [] = [[]]"
| "qsplit sep (c # cs) =
     (if c = sep then [] # qsplit sep cs
      else (case qsplit sep cs of [] \<Rightarrow> [[c]] | x # xs \<Rightarrow> (c # x) # xs))"

definition startsWith :: "string \<Rightarrow> string \<Rightarrow> bool" where
  "startsWith s p = (take (length p) s = p)"

section \<open>Process state\<close>

text \<open>
  What the engine does to the outside: frames written to the transport, signals emitted on
  a proxy (named as in the class declaration), the reply handed to the caller blocked in
  \<open>getInfo\<close>, and log lines.  The first argument of a signal is the address of the proxy
  that emits it.
\<close>

datatype effect =
    Written nat qvariantmap
  | ExecuteEventBroadcasted nat qvariantmap string qvariant
  | ExecuteComplete nat qvariantmap
  | ExecuteEventRecieved nat qvariantmap
  | CancelComplete nat qvariantmap
  | ServiceEventRecieved nat qvariantmap
  | UserEventRecieved nat qvariantmap
  | SystemEventRecieved nat qvariantmap string qvariant
  | Replied nat qvariantmap
  | ConnectWarning string string
  | GetInfoWarning string string string
  | AddressCritical string string

text \<open>The slots connected to a proxy's \<open>message\<close> signal: the classifier installed by the
  constructor, and the closures of \<open>execute\<close>, \<open>getInfo\<close> and \<open>cancel\<close> with what they
  capture.\<close>

datatype slot =
    Classify
  | ExecuteSlot string string qvariant
  | GetInfoSlot string string
  | CancelSlot string

datatype error = AssertionFailed | NullDereference

text \<open>
  The blocking calls run a local \<open>QEventLoop\<close>.  \<open>getInfo\<close> hands its locals \<open>rv\<close>
  and \<open>loop\<close> by reference to the slot it connects to \<open>message\<close>; they are kept in the
  proxy while the call waits.  The locals of \<open>syncCancel\<close> are its frame: the id of the
  cancel request, the target, the flag \<open>finish\<close>, whether its slots \<open>c1\<close> (on
  \<open>cancelComplete\<close>) and \<open>c2\<close> (on \<open>executeComplete\<close>) are still connected, and
  whether \<open>loop.exit()\<close> has been called.
\<close>

record syncCancel_frame =
  sc_msgid :: string
  sc_reqMsgId :: string
  finish :: bool
  c1 :: bool
  c2 :: bool
  exited :: bool

record qxfsstream =
  objectName :: string
  m_io :: "nat option"
  m_strClass :: string
  m_statusCategory :: string
  m_capabilitiesCategory :: string
  m_pending :: "(string \<times> string) list"
  connections :: "slot list"
  m_socket :: "nat option"
  m_isLocal :: bool
  m_isSsl :: bool
  m_host :: string
  m_port :: "16 word"
  rv :: qvariantmap
  loop_exited :: bool

text \<open>
  The process-wide objects: the proxies by address, the registry \<open>devices\<close>, the command
  FIFOs \<open>commands\<close>, the capability cache \<open>m_capabilities\<close> and the set \<open>warnOnce\<close>.
  \<open>QMap::operator[]\<close> gives an absent key the empty value, so both maps are total
  functions whose default is the empty list.  \<open>asserts\<close> says whether \<open>Q_ASSERT\<close> is
  compiled in (a build without \<open>QT_NO_DEBUG\<close>); a failed assertion aborts the process.
\<close>

record xfs =
  objects :: "nat \<Rightarrow> qxfsstream"
  devices :: "nat list"
  commands :: "string \<Rightarrow> (string \<times> qvariant) list"
  m_capabilities :: "string \<Rightarrow> qvariantmap"
  warnOnce :: "string set"
  effects :: "effect list"
  asserts :: bool

definition emits :: "effect list \<Rightarrow> xfs \<Rightarrow> xfs" where
  "emits es s = s\<lparr>effects := effects s @ es\<rparr>"

definition update_object :: "nat \<Rightarrow> (qxfsstream \<Rightarrow> qxfsstream) \<Rightarrow> xfs \<Rightarrow> xfs" where
  "update_object this f s = s\<lparr>objects := (objects s)(this := f (objects s this))\<rparr>"

definition name_of :: "xfs \<Rightarrow> nat \<Rightarrow> string" where
  "name_of s this = objectName (objects s this)"

section \<open>The per-device command queue\<close>

definition currentCommand :: "xfs \<Rightarrow> nat \<Rightarrow> string \<times> qvariant" where
  "currentCommand s this =
     (case commands s (name_of s this) of [] \<Rightarrow> ([], Invalid) | c # _ \<Rightarrow> c)"

definition appendCommand :: "nat \<Rightarrow> string \<times> qvariant \<Rightarrow> xfs \<Rightarrow> xfs" where
  "appendCommand this cmd s =
     s\<lparr>commands := (commands s)(name_of s this := commands s (name_of s this) @ [cmd])\<rparr>"

definition finishCommand :: "nat \<Rightarrow> xfs \<Rightarrow> xfs" where
  "finishCommand this s =
     (case commands s (name_of s this) of
        [] \<Rightarrow> s
      | _ # cs \<Rightarrow> s\<lparr>commands := (commands s)(name_of s this := cs)\<rparr>)"

definition done_msgid :: "nat \<Rightarrow> string \<Rightarrow> xfs \<Rightarrow> xfs" where
  "done_msgid this msgid s =
     update_object this (\<lambda>ob. ob\<lparr>m_pending := qmap_remove msgid (m_pending ob)\<rparr>)
       (finishCommand this s)"

definition disconnect :: "nat \<Rightarrow> slot \<Rightarrow> xfs \<Rightarrow> xfs" where
  "disconnect this c s =
     update_object this (\<lambda>ob. ob\<lparr>connections := removeAll c (connections ob)\<rparr>) s"

definition connect :: "nat \<Rightarrow> slot \<Rightarrow> xfs \<Rightarrow> xfs" where
  "connect this c s =
     update_object this (\<lambda>ob. ob\<lparr>connections := connections ob @ [c]\<rparr>) s"

section \<open>Transport\<close>

text \<open>
  The socket belongs to Qt; what it answers when \<open>connectToServer\<close> asks is an input:
  its \<open>state()\<close>, \<open>isEncrypted()\<close>, the result of the blocking
  \<open>waitForConnected\<close> or \<open>waitForEncrypted\<close> should the call get there, and
  \<open>errorString()\<close>.
\<close>

datatype socket_state =
  UnconnectedState | HostLookupState | ConnectingState | ConnectedState
  | BoundState | ListeningState | ClosingState

record probe =
  sock_state :: socket_state
  sock_isEncrypted :: bool
  sock_wait :: bool
  sock_errorString :: string

definition bad_address :: "string \<Rightarrow> string \<Rightarrow> xfs \<Rightarrow> xfs \<times> nat option" where
  "bad_address deviceId deviceAddress s =
     (emits [AddressCritical deviceId deviceAddress] s, None)"

text \<open>\<open>createSocket\<close> runs on the object at \<open>this\<close> before the base constructor; the
  new socket gets the address \<open>p\<close>.  \<open>QString::toUInt\<close> is a parameter (\<open>None\<close> when
  it reports \<open>ok = false\<close>, in which case it returns 0).\<close>

definition createSocket_host ::
  "(string \<Rightarrow> nat option) \<Rightarrow> nat \<Rightarrow> nat \<Rightarrow> string \<Rightarrow> string \<Rightarrow> xfs \<Rightarrow> xfs \<times> nat option" where
  "createSocket_host toUInt this p deviceAddress deviceId s =
     (let s1 = update_object this (\<lambda>ob. ob\<lparr>m_socket := Some p\<rparr>) s;
          l = qsplit CHR '':'' (drop 6 deviceAddress)
      in if length l \<noteq> 2 then bad_address deviceId deviceAddress s1
         else
           (let s2 = update_object this
                       (\<lambda>ob. ob\<lparr>m_host := l ! 0,
                                  m_port := (case toUInt (l ! 1) of None \<Rightarrow> 0
                                             | Some n \<Rightarrow> word_of_nat n)\<rparr>) s1
            in if toUInt (l ! 1) = None then bad_address deviceId deviceAddress s2
               else (s2, Some p)))"

definition createSocket ::
  "(string \<Rightarrow> nat option) \<Rightarrow> nat \<Rightarrow> nat \<Rightarrow> string \<Rightarrow> string \<Rightarrow> xfs \<Rightarrow> xfs \<times> nat option" where
  "createSocket toUInt this p deviceAddress deviceId s =
     (let s0 = update_object this
                 (\<lambda>ob. ob\<lparr>m_socket := None, m_host := [],
                            m_isLocal := (deviceAddress = ''local''), m_isSsl := False\<rparr>) s
      in if deviceAddress = ''local'' then
           (update_object this (\<lambda>ob. ob\<lparr>m_socket := Some p\<rparr>) s0, Some p)
         else if startsWith deviceAddress ''tcp://'' then
           createSocket_host toUInt this p deviceAddress deviceId s0
         else
           (let s1 = update_object this
                       (\<lambda>ob. ob\<lparr>m_isSsl := startsWith deviceAddress ''ssl://''\<rparr>) s0
            in if startsWith deviceAddress ''ssl://'' then
                 createSocket_host toUInt this p deviceAddress deviceId s1
               else bad_address deviceId deviceAddress s1))"

text \<open>The base constructor: it registers the proxy and connects the classifier.  The
  members of a new object start empty.\<close>

definition QXfsStream :: "nat \<Rightarrow> nat option \<Rightarrow> string \<Rightarrow> string \<Rightarrow> xfs \<Rightarrow> error + xfs" where
  "QXfsStream this io deviceId strClass s =
     (if asserts s \<and> length (toUpper strClass) \<noteq> 3 then Inl AssertionFailed
      else if asserts s \<and> io = None then Inl AssertionFailed
      else
        Inr ((update_object this
               (\<lambda>ob. ob\<lparr>objectName := deviceId, m_io := io, m_strClass := toUpper strClass,
                          m_statusCategory := ''WFS_INF_'' @ toUpper strClass @ ''_STATUS'',
                          m_capabilitiesCategory :=
                            ''WFS_INF_'' @ toUpper strClass @ ''_CAPABILITIES'',
                          m_pending := [], connections := [Classify],
                          rv := [], loop_exited := False\<rparr>) s)
             \<lparr>devices := devices s @ [this]\<rparr>))"

definition QXfsSocketStream ::
  "(string \<Rightarrow> nat option) \<Rightarrow> nat \<Rightarrow> nat \<Rightarrow> string \<Rightarrow> string \<Rightarrow> string \<Rightarrow> xfs \<Rightarrow> error + xfs" where
  "QXfsSocketStream toUInt this p deviceAddress deviceId strClass s =
     (case createSocket toUInt this p deviceAddress deviceId s of
        (s1, io) \<Rightarrow> QXfsStream this io deviceId strClass s1)"

text \<open>The destructors.  \<open>~QXfsStream\<close> takes the proxy out of the registry
  (\<open>removeOne\<close>); \<open>~QXfsSocketStream\<close> runs before it and calls through
  \<open>m_socket\<close>.\<close>

definition destroy :: "nat \<Rightarrow> xfs \<Rightarrow> xfs" where
  "destroy this s = s\<lparr>devices := remove1 this (devices s)\<rparr>"

definition destroy_socket :: "nat \<Rightarrow> xfs \<Rightarrow> error + xfs" where
  "destroy_socket this s =
     (case m_socket (objects s this) of
        None \<Rightarrow> Inl NullDereference
      | Some p \<Rightarrow> Inr (destroy this s))"

definition conn_err :: "nat \<Rightarrow> string \<Rightarrow> xfs \<Rightarrow> xfs \<times> bool" where
  "conn_err this errorString s =
     (let on = name_of s this
      in if on \<notin> warnOnce s
         then (emits [ConnectWarning on errorString] (s\<lparr>warnOnce := insert on (warnOnce s)\<rparr>),
               False)
         else (s, False))"

text \<open>\<open>QXfsSocketStream::connectToServer\<close>.  The socket is reached through \<open>io\<close>, so
  a null \<open>m_io\<close> is dereferenced.\<close>

definition connectToServer :: "nat \<Rightarrow> probe \<Rightarrow> xfs \<Rightarrow> error + xfs \<times> bool" where
  "connectToServer this pr s =
     (case m_io (objects s this) of
        None \<Rightarrow> Inl NullDereference
      | Some io \<Rightarrow>
          if m_isLocal (objects s this) then
            (if sock_state pr \<noteq> ConnectedState then
               (if \<not> sock_wait pr then Inr (conn_err this (sock_errorString pr) s)
                else Inr (s, True))
             else Inr (s, True))
          else
            (if sock_state pr \<noteq> ConnectedState
                \<or> (m_isSsl (objects s this) \<and> \<not> sock_isEncrypted pr) then
               (if \<not> sock_wait pr then Inr (conn_err this (sock_errorString pr) s)
                else Inr (s, True))
             else Inr (s, True)))"

section \<open>Requests\<close>

text \<open>\<open>QUuid::createUuid().toString()\<close> is the input \<open>uuid\<close>.\<close>

definition send ::
  "nat \<Rightarrow> probe \<Rightarrow> string \<Rightarrow> string \<Rightarrow> string \<Rightarrow> qvariant \<Rightarrow> xfs \<Rightarrow> error + xfs \<times> string" where
  "send this pr uuid function dwCommand lpCmdData s =
     (case connectToServer this pr s of
        Inl e \<Rightarrow> Inl e
      | Inr (s1, ok) \<Rightarrow>
          if \<not> ok then Inr (s1, [])
          else
            (let msgid = uuid;
                 cmd = [(''dwCommand'', QString dwCommand), (''function'', QString function),
                        (''lpCmdData'', lpCmdData), (''msgid'', QString msgid)]
             in Inr (update_object this
                       (\<lambda>ob. ob\<lparr>m_pending := qmap_insert msgid dwCommand (m_pending ob)\<rparr>)
                       (emits [Written this cmd] s1),
                     msgid)))"

section \<open>Slots of the message signal\<close>

text \<open>The constructor's classifier; the hooks \<open>serviceEvent\<close>, \<open>userEvent\<close> and
  \<open>systemEvent\<close> are the empty defaults of the base class.\<close>

definition classify :: "nat \<Rightarrow> qvariantmap \<Rightarrow> xfs \<Rightarrow> xfs" where
  "classify this msg0 s =
     (let msg = qmap_index msg0 ''message'';
          message = toString (qmap_value msg ''message'')
      in if message = ''WFS_SERVICE_EVENT'' then emits [ServiceEventRecieved this msg] s
         else if message = ''WFS_USER_EVENT'' then emits [UserEventRecieved this msg] s
         else if message = ''WFS_SYSTEM_EVENT'' then
           (let dwCommand = fst (currentCommand s this);
                lpCmdData = snd (currentCommand s this)
            in emits [SystemEventRecieved this msg dwCommand lpCmdData] s)
         else s)"

definition broadcast :: "nat \<Rightarrow> qvariantmap \<Rightarrow> string \<Rightarrow> qvariant \<Rightarrow> xfs \<Rightarrow> xfs" where
  "broadcast this msg dwCommand lpCmdData s =
     emits (map (\<lambda>device. ExecuteEventBroadcasted device msg dwCommand lpCmdData)
              (filter (\<lambda>device. name_of s device = name_of s this) (devices s))) s"

text \<open>The closure connected by \<open>execute\<close>.\<close>

definition execute_slot ::
  "nat \<Rightarrow> string \<Rightarrow> string \<Rightarrow> qvariant \<Rightarrow> qvariantmap \<Rightarrow> xfs \<Rightarrow> error + xfs" where
  "execute_slot this msgid dwCommand lpCmdData msg0 s =
     (if qmap_value msg0 ''msgid'' \<noteq> QString msgid then Inr s
      else
        (let msg1 = qmap_index msg0 ''msgid'';
             s1 = broadcast this msg1 dwCommand lpCmdData s;
             msg = qmap_index msg1 ''hResult''
         in if qmap_value msg ''hResult'' = QString ''WFS_SUCCESS'' then
              (if qmap_contains msg ''message'' then
                 (let message = toString (qmap_value msg ''message'')
                  in if message = ''WFS_EXECUTE_COMPLETE'' then
                       (if asserts s \<and> QString dwCommand \<noteq> qmap_value msg ''dwCommandCode''
                        then Inl AssertionFailed
                        else Inr (emits [ExecuteComplete this msg]
                                   (disconnect this (ExecuteSlot msgid dwCommand lpCmdData)
                                     (done_msgid this msgid s1))))
                     else if message = ''WFS_EXECUTE_EVENT'' then
                       Inr (emits [ExecuteEventRecieved this msg] s1)
                     else Inr s1)
               else
                 (if asserts s \<and> QString dwCommand \<noteq> qmap_value msg ''dwCommandCode''
                  then Inl AssertionFailed
                  else Inr (appendCommand this (dwCommand, lpCmdData) s1)))
            else
              Inr (emits [ExecuteComplete this msg]
                    (disconnect this (ExecuteSlot msgid dwCommand lpCmdData)
                      (done_msgid this msgid s1)))))"

text \<open>The closure connected by \<open>getInfo\<close>; it writes the caller's \<open>rv\<close> and leaves the
  loop.\<close>

definition getInfo_slot :: "nat \<Rightarrow> string \<Rightarrow> string \<Rightarrow> qvariantmap \<Rightarrow> xfs \<Rightarrow> error + xfs" where
  "getInfo_slot this msgid category msg0 s =
     (if qmap_value msg0 ''msgid'' \<noteq> QString msgid then Inr s
      else
        (let msg = qmap_index (qmap_index msg0 ''msgid'') ''hResult'';
             hResult = toString (qmap_value msg ''hResult'');
             finished = (\<lambda>s'. emits [Replied this msg]
                                (update_object this (\<lambda>ob. ob\<lparr>rv := msg, loop_exited := True\<rparr>)
                                  (done_msgid this msgid s')))
         in if hResult = ''WFS_SUCCESS'' then
              (if asserts s \<and> \<not> (\<not> qmap_contains msg ''message''
                                 \<or> qmap_value msg ''message'' = QString ''WFS_GETINFO_COMPLETE'')
               then Inl AssertionFailed
               else if \<not> qmap_contains msg ''message'' then Inr s
               else Inr (finished s))
            else
              Inr (finished (emits [GetInfoWarning (name_of s this) category hResult] s))))"

text \<open>The closure connected by \<open>cancel\<close>.\<close>

definition cancel_slot :: "nat \<Rightarrow> string \<Rightarrow> qvariantmap \<Rightarrow> xfs \<Rightarrow> error + xfs" where
  "cancel_slot this msgid msg0 s =
     (if qmap_value msg0 ''msgid'' \<noteq> QString msgid then Inr s
      else
        (let msg = qmap_index msg0 ''msgid''
         in Inr (emits [CancelComplete this msg]
                  (disconnect this (CancelSlot msgid) (done_msgid this msgid s)))))"

fun run_slot :: "slot \<Rightarrow> nat \<Rightarrow> qvariantmap \<Rightarrow> xfs \<Rightarrow> error + xfs" where
  "run_slot Classify this msg s = Inr (classify this msg s)"
| "run_slot (ExecuteSlot msgid dwCommand lpCmdData) this msg s =
     execute_slot this msgid dwCommand lpCmdData msg s"
| "run_slot (GetInfoSlot msgid category) this msg s = getInfo_slot this msgid category msg s"
| "run_slot (CancelSlot msgid) this msg s = cancel_slot this msgid msg s"

text \<open>The signals the classifier emits for a message.\<close>

definition classified :: "nat \<Rightarrow> qvariantmap \<Rightarrow> xfs \<Rightarrow> effect list" where
  "classified this msg s = drop (length (effects s)) (effects (classify this msg s))"

text \<open>\<open>emit message(msg)\<close>: the slots connected when the emission starts are called in
  connection order, each by value on the same message; one that has been disconnected in
  the meantime is skipped.\<close>

fun activate :: "slot list \<Rightarrow> nat \<Rightarrow> qvariantmap \<Rightarrow> xfs \<Rightarrow> error + xfs" where
  "activate [] this msg s = Inr s"
| "activate (c # cs) this msg s =
     (if c \<in> set (connections (objects s this)) then
        (case run_slot c this msg s of
           Inl e \<Rightarrow> Inl e
         | Inr s' \<Rightarrow> activate cs this msg s')
      else activate cs this msg s)"

definition emit_message :: "nat \<Rightarrow> qvariantmap \<Rightarrow> xfs \<Rightarrow> error + xfs" where
  "emit_message this msg s = activate (connections (objects s this)) this msg s"

text \<open>\<open>QXfsSocketStream::disconnected\<close>: the loop runs over a copy of \<open>m_pending\<close> and
  keeps writing into the same \<open>msg\<close>.\<close>

fun disconnected_loop ::
  "(string \<times> string) list \<Rightarrow> qvariantmap \<Rightarrow> nat \<Rightarrow> xfs \<Rightarrow> error + xfs" where
  "disconnected_loop [] msg this s = Inr s"
| "disconnected_loop (it # its) msg this s =
     (let msg' = qmap_insert ''dwCommandCode'' (QString (snd it))
                   (qmap_insert ''msgid'' (QString (fst it)) msg)
      in case emit_message this msg' s of
           Inl e \<Rightarrow> Inl e
         | Inr s' \<Rightarrow> disconnected_loop its msg' this s')"

definition disconnected :: "nat \<Rightarrow> xfs \<Rightarrow> error + xfs" where
  "disconnected this s =
     disconnected_loop (m_pending (objects s this))
       [(''hResult'', QString ''WFS_ERR_CONNECTION_LOST'')] this s"

definition execute ::
  "nat \<Rightarrow> probe \<Rightarrow> string \<Rightarrow> string \<Rightarrow> qvariant \<Rightarrow> xfs \<Rightarrow> error + xfs \<times> string" where
  "execute this pr uuid dwCommand lpCmdData s =
     (case send this pr uuid ''WFSExecute'' dwCommand lpCmdData s of
        Inl e \<Rightarrow> Inl e
      | Inr (s1, msgid) \<Rightarrow>
          if msgid = [] then Inr (s1, [])
          else Inr (connect this (ExecuteSlot msgid dwCommand lpCmdData) s1, msgid))"

definition cancel :: "nat \<Rightarrow> probe \<Rightarrow> string \<Rightarrow> string \<Rightarrow> xfs \<Rightarrow> error + xfs \<times> string" where
  "cancel this pr uuid reqMsgId s =
     (case connectToServer this pr s of
        Inl e \<Rightarrow> Inl e
      | Inr (s1, ok) \<Rightarrow>
          if \<not> ok then Inr (s1, [])
          else
            (let msgid = uuid;
                 s2 = connect this (CancelSlot msgid) s1;
                 s3 = update_object this
                        (\<lambda>ob. ob\<lparr>m_pending := qmap_insert msgid [] (m_pending ob)\<rparr>) s2;
                 cmd = [(''function'', QString ''WFSCancel''), (''msgid'', QString msgid)];
                 cmd' = (if reqMsgId \<noteq> [] then qmap_insert ''RequestID'' (QString reqMsgId) cmd
                         else cmd)
             in Inr (emits [Written this cmd'] s3, msgid)))"

section \<open>Blocking calls\<close>

text \<open>
  While a call waits in \<open>loop.exec()\<close> the event loop delivers what the transport
  reports: a \<open>readyRead\<close> that decodes and emits the frames then complete in the buffer,
  or the socket's \<open>disconnected\<close>.  \<open>loop.exit()\<close> only marks the loop, so \<open>exec\<close>
  returns when the event being delivered is over.  The events still to come are an input;
  when they run out before the loop is left, the call never returns, which is \<open>None\<close>.
\<close>

datatype event = ReadyRead "qvariantmap list" | SocketDisconnected

fun emit_all :: "qvariantmap list \<Rightarrow> nat \<Rightarrow> xfs \<Rightarrow> error + xfs" where
  "emit_all [] this s = Inr s"
| "emit_all (msg # msgs) this s =
     (case emit_message this msg s of
        Inl e \<Rightarrow> Inl e
      | Inr s' \<Rightarrow> emit_all msgs this s')"

fun deliver :: "event \<Rightarrow> nat \<Rightarrow> xfs \<Rightarrow> error + xfs" where
  "deliver (ReadyRead msgs) this s = emit_all msgs this s"
| "deliver SocketDisconnected this s = disconnected this s"

fun exec :: "event list \<Rightarrow> nat \<Rightarrow> xfs \<Rightarrow> error + xfs \<times> event list option" where
  "exec [] this s = Inr (s, None)"
| "exec (ev # evs) this s =
     (case deliver ev this s of
        Inl e \<Rightarrow> Inl e
      | Inr s' \<Rightarrow>
          if loop_exited (objects s' this) then Inr (s', Some evs)
          else exec evs this s')"

definition getInfo ::
  "nat \<Rightarrow> probe \<Rightarrow> string \<Rightarrow> string \<Rightarrow> qvariant \<Rightarrow> event list \<Rightarrow> xfs
     \<Rightarrow> error + xfs \<times> (qvariantmap \<times> event list) option" where
  "getInfo this pr uuid category queryDetails evs s =
     (case send this pr uuid ''WFSGetInfo'' category queryDetails s of
        Inl e \<Rightarrow> Inl e
      | Inr (s1, msgid) \<Rightarrow>
          if msgid = [] then Inr (s1, Some ([], evs))
          else
            (let s2 = connect this (GetInfoSlot msgid category)
                        (update_object this (\<lambda>ob. ob\<lparr>rv := [], loop_exited := False\<rparr>) s1)
             in case exec evs this s2 of
                  Inl e \<Rightarrow> Inl e
                | Inr (s3, None) \<Rightarrow> Inr (s3, None)
                | Inr (s3, Some rest) \<Rightarrow>
                    Inr (disconnect this (GetInfoSlot msgid category) s3,
                         Some (rv (objects s3 this), rest))))"

text \<open>
  The two slots of \<open>syncCancel\<close>.  They are called by the emission of
  \<open>cancelComplete\<close> and \<open>executeComplete\<close> on this proxy, read and write only the
  frame, and so are run here on the signals that the delivery of an event has emitted, in
  the order of emission.  A slot of the frame that is still connected when the call returns
  is not followed further.
\<close>

definition syncCancel_c1 :: "syncCancel_frame \<Rightarrow> qvariantmap \<Rightarrow> syncCancel_frame" where
  "syncCancel_c1 fr msg =
     (if qmap_value msg ''msgid'' \<noteq> QString (sc_msgid fr) then fr
      else if finish fr \<or> qmap_value msg ''hResult'' \<noteq> QString ''WFS_SUCCESS''
      then fr\<lparr>c1 := False, exited := True\<rparr>
      else fr\<lparr>c1 := False, finish := True\<rparr>)"

definition syncCancel_c2 :: "syncCancel_frame \<Rightarrow> qvariantmap \<Rightarrow> syncCancel_frame" where
  "syncCancel_c2 fr msg =
     (if qmap_value msg ''msgid'' \<noteq> QString (sc_reqMsgId fr) then fr
      else if finish fr then fr\<lparr>c2 := False, exited := True\<rparr>
      else fr\<lparr>c2 := False, finish := True\<rparr>)"

fun signalled :: "nat \<Rightarrow> syncCancel_frame \<Rightarrow> effect \<Rightarrow> syncCancel_frame" where
  "signalled this fr (CancelComplete a msg) =
     (if a = this \<and> c1 fr then syncCancel_c1 fr msg else fr)"
| "signalled this fr (ExecuteComplete a msg) =
     (if a = this \<and> c2 fr then syncCancel_c2 fr msg else fr)"
| "signalled this fr _ = fr"

fun syncCancel_exec ::
  "event list \<Rightarrow> nat \<Rightarrow> syncCancel_frame \<Rightarrow> xfs \<Rightarrow> error + xfs \<times> event list option" where
  "syncCancel_exec [] this fr s = Inr (s, None)"
| "syncCancel_exec (ev # evs) this fr s =
     (case deliver ev this s of
        Inl e \<Rightarrow> Inl e
      | Inr s' \<Rightarrow>
          (let fr' = foldl (signalled this) fr (drop (length (effects s)) (effects s'))
           in if exited fr' then Inr (s', Some evs)
              else syncCancel_exec evs this fr' s'))"

text \<open>The frame when the loop is entered: both slots connected, and \<open>finish\<close> set
  when no target was given.\<close>

definition entered :: "string \<Rightarrow> string \<Rightarrow> syncCancel_frame" where
  "entered msgid reqMsgId =
     \<lparr>sc_msgid = msgid, sc_reqMsgId = reqMsgId, finish = (reqMsgId = []),
      c1 = True, c2 = True, exited = False\<rparr>"

definition syncCancel ::
  "nat \<Rightarrow> probe \<Rightarrow> string \<Rightarrow> string \<Rightarrow> event list \<Rightarrow> xfs
     \<Rightarrow> error + xfs \<times> (bool \<times> event list) option" where
  "syncCancel this pr uuid reqMsgId evs s =
     (case cancel this pr uuid reqMsgId s of
        Inl e \<Rightarrow> Inl e
      | Inr (s1, msgid) \<Rightarrow>
          if msgid = [] then Inr (s1, Some (False, evs))
          else
            (case syncCancel_exec evs this (entered msgid reqMsgId) s1 of
               Inl e \<Rightarrow> Inl e
             | Inr (s2, None) \<Rightarrow> Inr (s2, None)
             | Inr (s2, Some rest) \<Rightarrow> Inr (s2, Some (True, rest))))"

text \<open>What a waiting \<open>syncCancel\<close> can observe among the effects on its proxy: a
  cancellation-completion reply for the id of its cancel request, and an
  execute-completion reply for the id of its target.\<close>

fun cancel_reply :: "nat \<Rightarrow> string \<Rightarrow> effect \<Rightarrow> qvariantmap option" where
  "cancel_reply this msgid (CancelComplete a msg) =
     (if a = this \<and> qmap_value msg ''msgid'' = QString msgid then Some msg else None)"
| "cancel_reply this msgid _ = None"

fun execute_reply :: "nat \<Rightarrow> string \<Rightarrow> effect \<Rightarrow> qvariantmap option" where
  "execute_reply this msgid (ExecuteComplete a msg) =
     (if a = this \<and> qmap_value msg ''msgid'' = QString msgid then Some msg else None)"
| "execute_reply this msgid _ = None"

definition cancel_frame :: "string \<Rightarrow> string \<Rightarrow> qvariantmap" where
  "cancel_frame msgid reqMsgId =
     (if reqMsgId \<noteq> []
      then qmap_insert ''RequestID'' (QString reqMsgId)
             [(''function'', QString ''WFSCancel''), (''msgid'', QString msgid)]
      else [(''function'', QString ''WFSCancel''), (''msgid'', QString msgid)])"

section \<open>Capabilities and status\<close>

definition getCapabilities ::
  "nat \<Rightarrow> probe \<Rightarrow> string \<Rightarrow> event list \<Rightarrow> xfs \<Rightarrow> error + xfs \<times> event list option" where
  "getCapabilities this pr uuid evs s =
     (case getInfo this pr uuid (m_capabilitiesCategory (objects s this)) Invalid evs s of
        Inl e \<Rightarrow> Inl e
      | Inr (s1, None) \<Rightarrow> Inr (s1, None)
      | Inr (s1, Some (data, rest)) \<Rightarrow>
          if qmap_contains data ''lpBuffer'' then
            Inr (s1\<lparr>m_capabilities :=
                      (m_capabilities s1)
                        (name_of s1 this := toMap (qmap_value data ''lpBuffer''))\<rparr>,
                 Some rest)
          else Inr (s1, Some rest))"

definition capabilities ::
  "nat \<Rightarrow> probe \<Rightarrow> string \<Rightarrow> event list \<Rightarrow> xfs
     \<Rightarrow> error + xfs \<times> (qvariantmap \<times> event list) option" where
  "capabilities this pr uuid evs s =
     (let caps = m_capabilities s (name_of s this)
      in if caps = [] then
           (case getCapabilities this pr uuid evs s of
              Inl e \<Rightarrow> Inl e
            | Inr (s1, None) \<Rightarrow> Inr (s1, None)
            | Inr (s1, Some rest) \<Rightarrow> Inr (s1, Some (m_capabilities s1 (name_of s1 this), rest)))
         else Inr (s, Some (m_capabilities s (name_of s this), evs)))"

definition getStatus ::
  "nat \<Rightarrow> probe \<Rightarrow> string \<Rightarrow> event list \<Rightarrow> xfs
     \<Rightarrow> error + xfs \<times> (qvariantmap \<times> event list) option" where
  "getStatus this pr uuid evs s =
     (case getInfo this pr uuid (m_statusCategory (objects s this)) Invalid evs s of
        Inl e \<Rightarrow> Inl e
      | Inr (s1, None) \<Rightarrow> Inr (s1, None)
      | Inr (s1, Some (data, rest)) \<Rightarrow>
          Inr (s1, Some (toMap (qmap_value data ''lpBuffer''), rest)))"

section \<open>Reading frames\<close>

text \<open>
  Modelled from the spec: the frame decoder, Qt's \<open>QDataStream\<close> reading a
  \<open>QVariantMap\<close> inside a transaction on \<open>m_io\<close>, is not part of the sources.  It is the
  parameter \<open>decode\<close>, \<open>decode(stream) -> Message | incomplete\<close>: on the buffered bytes
  it yields a message and the bytes after its frame, or \<open>None\<close> when no complete frame is
  there, in which case the failed \<open>commitTransaction\<close> leaves the buffer as it was.
  \<open>readyRead\<close> is the loop of the source around it, on the buffer \<open>buf\<close>.
\<close>

type_synonym decoder = "8 word list \<Rightarrow> (qvariantmap \<times> 8 word list) option"

partial_function (option) readyRead ::
  "decoder \<Rightarrow> 8 word list \<Rightarrow> nat \<Rightarrow> xfs \<Rightarrow> (error + xfs \<times> 8 word list) option" where
  "readyRead decode buf this s =
     (case decode buf of
        None \<Rightarrow> Some (Inr (s, buf))
      | Some (msg, rest) \<Rightarrow>
          (case emit_message this msg s of
             Inl e \<Rightarrow> Some (Inl e)
           | Inr s' \<Rightarrow> readyRead decode rest this s'))"

text \<open>The frames a buffer holds, read off with at most \<open>n\<close> decoding steps, and the bytes
  left after them.\<close>

fun frames :: "nat \<Rightarrow> decoder \<Rightarrow> 8 word list \<Rightarrow> qvariantmap list \<times> 8 word list" where
  "frames 0 decode buf = ([], buf)"
| "frames (Suc n) decode buf =
     (case decode buf of
        None \<Rightarrow> ([], buf)
      | Some (msg, rest) \<Rightarrow> (msg # fst (frames n decode rest), snd (frames n decode rest)))"

text \<open>A decoder makes progress when every frame it reads takes bytes off the buffer.\<close>

definition progress :: "decoder \<Rightarrow> bool" where
  "progress decode \<longleftrightarrow>
     (\<forall>buf msg rest. decode buf = Some (msg, rest) \<longrightarrow> length rest < length buf)"

section \<open>Callers\<close>

text \<open>Callers that retry: \<open>connectToServer\<close> on the named proxy once for each answer of
  its socket, with the results in order.\<close>

fun retry :: "(nat \<times> probe) list \<Rightarrow> xfs \<Rightarrow> error + xfs \<times> bool list" where
  "retry [] s = Inr (s, [])"
| "retry (a # as) s =
     (case connectToServer (fst a) (snd a) s of
        Inl e \<Rightarrow> Inl e
      | Inr (s1, ok) \<Rightarrow>
          (case retry as s1 of
             Inl e \<Rightarrow> Inl e
           | Inr (s2, oks) \<Rightarrow> Inr (s2, ok # oks)))"

text \<open>What \<open>connectToServer\<close> tests before it returns true at once: the socket is
  not connected, or it is the socket of an \<open>ssl\<close> proxy and not encrypted; then the
  call goes through the blocking wait.\<close>

definition must_wait :: "qxfsstream \<Rightarrow> probe \<Rightarrow> bool" where
  "must_wait ob pr \<longleftrightarrow>
     sock_state pr \<noteq> ConnectedState
     \<or> (\<not> m_isLocal ob \<and> m_isSsl ob \<and> \<not> sock_isEncrypted pr)"

text \<open>The connection warnings logged for a device identity, and the state of the log
  that \<open>warnOnce\<close> maintains: at most one for each identity, and none for an identity
  that is not in the set.\<close>

fun connect_warning :: "string \<Rightarrow> effect \<Rightarrow> bool" where
  "connect_warning on (ConnectWarning n errorString) = (n = on)"
| "connect_warning on _ = False"

definition connect_warnings :: "string \<Rightarrow> effect list \<Rightarrow> effect list" where
  "connect_warnings on es = filter (connect_warning on) es"

definition warned_once :: "xfs \<Rightarrow> bool" where
  "warned_once s \<longleftrightarrow>
     (\<forall>on. length (connect_warnings on (effects s)) \<le> 1
           \<and> (connect_warnings on (effects s) \<noteq> [] \<longrightarrow> on \<in> warnOnce s))"

section \<open>Pending requests and their slots\<close>

fun slot_msgid :: "slot \<Rightarrow> string option" where
  "slot_msgid Classify = None"
| "slot_msgid (ExecuteSlot msgid dwCommand lpCmdData) = Some msgid"
| "slot_msgid (GetInfoSlot msgid category) = Some msgid"
| "slot_msgid (CancelSlot msgid) = Some msgid"

definition slots_of :: "qxfsstream \<Rightarrow> string \<Rightarrow> slot list" where
  "slots_of ob msgid = filter (\<lambda>c. slot_msgid c = Some msgid) (connections ob)"

text \<open>Every pending id is a key once and has exactly one slot connected for it: what
  \<open>send\<close>, \<open>execute\<close>, \<open>cancel\<close> and \<open>getInfo\<close> set up when ids are fresh.\<close>

definition wired :: "qxfsstream \<Rightarrow> bool" where
  "wired ob \<longleftrightarrow>
     distinct (map fst (m_pending ob))
     \<and> (\<forall>it \<in> set (m_pending ob). length (slots_of ob (fst it)) = 1)"

definition lost :: "string \<times> string \<Rightarrow> qvariantmap" where
  "lost it =
     [(''dwCommandCode'', QString (snd it)), (''hResult'', QString ''WFS_ERR_CONNECTION_LOST''),
      (''msgid'', QString (fst it))]"

text \<open>The message with which an effect completes a request of the proxy at \<open>this\<close>.\<close>

fun completion :: "nat \<Rightarrow> effect \<Rightarrow> qvariantmap option" where
  "completion this (ExecuteComplete a msg) = (if a = this then Some msg else None)"
| "completion this (CancelComplete a msg) = (if a = this then Some msg else None)"
| "completion this (Replied a msg) = (if a = this then Some msg else None)"
| "completion this _ = None"

text \<open>The frames written to the transport among some effects: the requests sent to the
  backend.\<close>

fun written :: "effect \<Rightarrow> bool" where
  "written (Written a cmd) = True"
| "written _ = False"

text \<open>What every slot keeps: the registry, the names, the cache, the warning set; the
  effects grow, and no frame is written.\<close>

definition kept :: "xfs \<Rightarrow> xfs \<Rightarrow> bool" where
  "kept s s' \<longleftrightarrow>
     (\<exists>es. effects s' = effects s @ es \<and> (\<forall>e\<in>set es. \<not> written e))
     \<and> devices s' = devices s \<and> m_capabilities s' = m_capabilities s
     \<and> warnOnce s' = warnOnce s \<and> asserts s' = asserts s
     \<and> (\<forall>a. objectName (objects s' a) = objectName (objects s a)
            \<and> m_io (objects s' a) = m_io (objects s a)
            \<and> set (connections (objects s' a)) \<subseteq> set (connections (objects s a)))"

text \<open>The \<open>Q_ASSERT\<close> that a slot evaluates on a message holds: the slot of
  \<open>execute\<close> asserts the echo of its command code on a success frame that is an
  acknowledgement or a completion, the slot of \<open>getInfo\<close> asserts the completion marker
  on a success frame that has one.\<close>

fun asserted :: "slot \<Rightarrow> qvariantmap \<Rightarrow> bool" where
  "asserted (ExecuteSlot msgid dwCommand lpCmdData) msg =
     (qmap_value msg ''msgid'' = QString msgid
        \<and> qmap_value msg ''hResult'' = QString ''WFS_SUCCESS''
        \<and> (qmap_contains msg ''message'' \<longrightarrow>
              toString (qmap_value msg ''message'') = ''WFS_EXECUTE_COMPLETE'')
      \<longrightarrow> qmap_value msg ''dwCommandCode'' = QString dwCommand)"
| "asserted (GetInfoSlot msgid category) msg =
     (qmap_value msg ''msgid'' = QString msgid
        \<and> toString (qmap_value msg ''hResult'') = ''WFS_SUCCESS''
        \<and> qmap_contains msg ''message''
      \<longrightarrow> qmap_value msg ''message'' = QString ''WFS_GETINFO_COMPLETE'')"
| "asserted Classify msg = True"
| "asserted (CancelSlot msgid) msg = True"

text \<open>A query that was issued in the state \<open>s\<close> is waiting in the state \<open>x\<close>: its slot
  \<open>G\<close> is the last one connected, after slots that were there in \<open>s\<close>.\<close>

definition waiting :: "nat \<Rightarrow> slot \<Rightarrow> xfs \<Rightarrow> xfs \<Rightarrow> bool" where
  "waiting this G s x \<longleftrightarrow>
     asserts x = asserts s \<and> name_of x this = name_of s this
     \<and> (\<exists>cs. connections (objects x this) = cs @ [G]
              \<and> set cs \<subseteq> set (connections (objects s this)))"

section \<open>Process start\<close>

text \<open>Before any proxy is constructed the registry, the queues, the cache and the
  warning set are empty; memory not yet constructed reads as an object with empty
  members.\<close>

definition raw_object :: qxfsstream where
  "raw_object =
     \<lparr>objectName = [], m_io = None, m_strClass = [], m_statusCategory = [],
      m_capabilitiesCategory = [], m_pending = [], connections = [], m_socket = None,
      m_isLocal = False, m_isSsl = False, m_host = [], m_port = 0, rv = [],
      loop_exited = False\<rparr>"

definition process_start :: "bool \<Rightarrow> xfs" where
  "process_start debug =
     \<lparr>objects = (\<lambda>_. raw_object), devices = [], commands = (\<lambda>_. []),
      m_capabilities = (\<lambda>_. []), warnOnce = {}, effects = [], asserts = debug\<rparr>"

section \<open>Example runs\<close>

text \<open>States and frames on which the theorems below are instantiated.\<close>

definition online :: probe where
  "online = \<lparr>sock_state = ConnectedState, sock_isEncrypted = False, sock_wait = True,
             sock_errorString = []\<rparr>"

definition refused :: probe where
  "refused = \<lparr>sock_state = UnconnectedState, sock_isEncrypted = False, sock_wait = False,
              sock_errorString = ''Connection refused''\<rparr>"

definition port80 :: "string \<Rightarrow> nat option" where
  "port80 s = (if s = ''80'' then Some 80 else None)"

definition started :: "error + xfs \<Rightarrow> xfs" where
  "started r = (case r of Inl e \<Rightarrow> process_start False | Inr s \<Rightarrow> s)"

definition after :: "error + xfs \<times> 'a \<Rightarrow> xfs" where
  "after r = (case r of Inl e \<Rightarrow> process_start False | Inr (s, x) \<Rightarrow> s)"

definition crd1 :: xfs where
  "crd1 = started (QXfsSocketStream port80 20 200 ''local'' ''CRD1'' ''CRD''
            (started (QXfsSocketStream port80 10 100 ''tcp://h:80'' ''CRD1'' ''crd''
               (process_start True))))"

definition crd1_eject :: xfs where
  "crd1_eject = after (execute 10 online ''{e}'' ''EJECT'' Invalid crd1)"

definition eject_ack :: qvariantmap where
  "eject_ack = [(''dwCommandCode'', QString ''EJECT''), (''hResult'', QString ''WFS_SUCCESS''),
                (''msgid'', QString ''{e}'')]"

definition eject_failed :: qvariantmap where
  "eject_failed = [(''dwCommandCode'', QString ''EJECT''), (''hResult'', QString ''WFS_ERR_HARDWARE_ERROR''),
                   (''msgid'', QString ''{e}'')]"

definition crd1_acked :: xfs where
  "crd1_acked = started (emit_message 10 eject_ack crd1_eject)"

definition crd1_cancelling :: xfs where
  "crd1_cancelling = after (cancel 10 online ''{c}'' ''{e}'' crd1_acked)"

definition cancel_done :: qvariantmap where
  "cancel_done = [(''hResult'', QString ''WFS_SUCCESS''), (''msgid'', QString ''{c}'')]"

definition info_failed :: qvariantmap where
  "info_failed = [(''hResult'', QString ''WFS_ERR_TIMEOUT''), (''msgid'', QString ''{g}'')]"

definition eject_complete :: qvariantmap where
  "eject_complete =
     [(''dwCommandCode'', QString ''EJECT''), (''hResult'', QString ''WFS_SUCCESS''),
      (''message'', QString ''WFS_EXECUTE_COMPLETE''), (''msgid'', QString ''{e}'')]"

definition eject_event :: qvariantmap where
  "eject_event =
     [(''hResult'', QString ''WFS_SUCCESS''), (''message'', QString ''WFS_EXECUTE_EVENT''),
      (''msgid'', QString ''{e}'')]"

definition retain_complete :: qvariantmap where
  "retain_complete =
     [(''dwCommandCode'', QString ''RETAIN''), (''hResult'', QString ''WFS_SUCCESS''),
      (''message'', QString ''WFS_EXECUTE_COMPLETE''), (''msgid'', QString ''{e}'')]"

definition caps_reply :: qvariantmap where
  "caps_reply =
     [(''hResult'', QString ''WFS_SUCCESS''),
      (''lpBuffer'', QVariantMap [(''fwType'', QString ''MOTOR'')]),
      (''message'', QString ''WFS_GETINFO_COMPLETE''), (''msgid'', QString ''{g}'')]"


text \<open>A decoder for the examples: a frame is a length byte and that many bytes, and
  decodes to a service event.\<close>

definition service_event :: qvariantmap where
  "service_event = [(''message'', QString ''WFS_SERVICE_EVENT'')]"

definition framed :: decoder where
  "framed buf =
     (case buf of
        [] \<Rightarrow> None
      | n # bs \<Rightarrow> if unat n \<le> length bs then Some (service_event, drop (unat n) bs) else None)"

text \<open>A proxy constructed on an address of no known form, in a build without assertions.\<close>

definition ftp1 :: xfs where
  "ftp1 = started (QXfsSocketStream port80 10 100 ''ftp://x'' ''CRD1'' ''CRD'' (process_start False))"

lemma emits_simps [simp]:
  "objects (emits es s) = objects s" "devices (emits es s) = devices s"
  "commands (emits es s) = commands s" "m_capabilities (emits es s) = m_capabilities s"
  "warnOnce (emits es s) = warnOnce s" "asserts (emits es s) = asserts s"
  "effects (emits es s) = effects s @ es" "name_of (emits es s) = name_of s"
  by (simp_all add: emits_def name_of_def fun_eq_iff)

lemma update_object_simps [simp]:
  "objects (update_object this f s) = (objects s)(this := f (objects s this))"
  "devices (update_object this f s) = devices s"
  "commands (update_object this f s) = commands s"
  "m_capabilities (update_object this f s) = m_capabilities s"
  "warnOnce (update_object this f s) = warnOnce s"
  "asserts (update_object this f s) = asserts s"
  "effects (update_object this f s) = effects s"
  by (simp_all add: update_object_def)

lemma finishCommand_simps [simp]:
  "objects (finishCommand this s) = objects s" "devices (finishCommand this s) = devices s"
  "commands (finishCommand this s) = (commands s)(name_of s this := drop 1 (commands s (name_of s this)))"
  "m_capabilities (finishCommand this s) = m_capabilities s"
  "warnOnce (finishCommand this s) = warnOnce s" "asserts (finishCommand this s) = asserts s"
  "effects (finishCommand this s) = effects s" "name_of (finishCommand this s) = name_of s"
  by (auto simp add: finishCommand_def name_of_def fun_eq_iff split: list.splits)

lemma appendCommand_simps [simp]:
  "objects (appendCommand this c s) = objects s" "devices (appendCommand this c s) = devices s"
  "commands (appendCommand this c s) = (commands s)(name_of s this := commands s (name_of s this) @ [c])"
  "m_capabilities (appendCommand this c s) = m_capabilities s"
  "warnOnce (appendCommand this c s) = warnOnce s" "asserts (appendCommand this c s) = asserts s"
  "effects (appendCommand this c s) = effects s" "name_of (appendCommand this c s) = name_of s"
  by (auto simp add: appendCommand_def name_of_def fun_eq_iff)

lemma done_msgid_simps [simp]:
  "objects (done_msgid this msgid s) =
     (objects s)(this := (objects s this)\<lparr>m_pending := qmap_remove msgid (m_pending (objects s this))\<rparr>)"
  "devices (done_msgid this msgid s) = devices s"
  "commands (done_msgid this msgid s) = (commands s)(name_of s this := drop 1 (commands s (name_of s this)))"
  "m_capabilities (done_msgid this msgid s) = m_capabilities s"
  "warnOnce (done_msgid this msgid s) = warnOnce s" "asserts (done_msgid this msgid s) = asserts s"
  "effects (done_msgid this msgid s) = effects s"
  by (simp_all add: done_msgid_def)

lemma name_of_done [simp]: "name_of (done_msgid this msgid s) = name_of s"
  by (simp add: name_of_def fun_eq_iff)

lemma disconnect_simps [simp]:
  "objects (disconnect this c s) =
     (objects s)(this := (objects s this)\<lparr>connections := removeAll c (connections (objects s this))\<rparr>)"
  "devices (disconnect this c s) = devices s" "commands (disconnect this c s) = commands s"
  "m_capabilities (disconnect this c s) = m_capabilities s"
  "warnOnce (disconnect this c s) = warnOnce s" "asserts (disconnect this c s) = asserts s"
  "effects (disconnect this c s) = effects s"
  by (simp_all add: disconnect_def)

lemma name_of_disconnect [simp]: "name_of (disconnect this c s) = name_of s"
  by (simp add: name_of_def fun_eq_iff)

lemma connect_simps [simp]:
  "objects (connect this c s) =
     (objects s)(this := (objects s this)\<lparr>connections := connections (objects s this) @ [c]\<rparr>)"
  "devices (connect this c s) = devices s" "commands (connect this c s) = commands s"
  "m_capabilities (connect this c s) = m_capabilities s"
  "warnOnce (connect this c s) = warnOnce s" "asserts (connect this c s) = asserts s"
  "effects (connect this c s) = effects s"
  by (simp_all add: connect_def)

lemma name_of_connect [simp]: "name_of (connect this c s) = name_of s"
  by (simp add: name_of_def fun_eq_iff)

lemma map_of_qmap_remove [simp]: "map_of (qmap_remove k m) = (map_of m)(k := None)"
  by (induction m) (auto simp add: qmap_remove_def fun_eq_iff)

lemma map_of_qmap_insert [simp]: "map_of (qmap_insert k v m) = (map_of m)(k \<mapsto> v)"
  by (induction m) (auto simp add: fun_eq_iff)

lemma qmap_index_present [simp]: "qmap_value m k = QString x \<Longrightarrow> qmap_index m k = m"
  by (auto simp add: qmap_index_def qmap_value_def qmap_contains_def split: option.splits)

lemma qmap_value_index [simp]: "qmap_value (qmap_index m k) k' = qmap_value m k'"
  by (auto simp add: qmap_index_def qmap_value_def qmap_contains_def split: option.splits)

lemma qmap_contains_index [simp]:
  "qmap_contains (qmap_index m k) k' = (k' = k \<or> qmap_contains m k')"
  by (auto simp add: qmap_index_def qmap_contains_def)

lemma broadcast_simps [simp]:
  "objects (broadcast this msg c d s) = objects s" "devices (broadcast this msg c d s) = devices s"
  "commands (broadcast this msg c d s) = commands s"
  "m_capabilities (broadcast this msg c d s) = m_capabilities s"
  "warnOnce (broadcast this msg c d s) = warnOnce s" "asserts (broadcast this msg c d s) = asserts s"
  "name_of (broadcast this msg c d s) = name_of s"
  by (simp_all add: broadcast_def)

lemma execute_slot_other:
  "qmap_value msg ''msgid'' \<noteq> QString msgid \<Longrightarrow>
   execute_slot this msgid dwCommand lpCmdData msg s = Inr s"
  by (simp add: execute_slot_def)

lemma execute_slot_failure:
  "qmap_value msg ''msgid'' = QString msgid \<Longrightarrow>
   qmap_value msg ''hResult'' \<noteq> QString ''WFS_SUCCESS'' \<Longrightarrow>
   execute_slot this msgid dwCommand lpCmdData msg s =
     Inr (emits [ExecuteComplete this (qmap_index msg ''hResult'')]
           (disconnect this (ExecuteSlot msgid dwCommand lpCmdData)
             (done_msgid this msgid (broadcast this msg dwCommand lpCmdData s))))"
  by (simp add: execute_slot_def Let_def)

lemma toString_eq_Cons: "toString v = c # cs \<longleftrightarrow> v = QString (c # cs)"
  by (cases v) (simp_all add: toString_def)

lemma value_contains: "qmap_value m k = QString x \<Longrightarrow> qmap_contains m k"
  by (auto simp add: qmap_value_def qmap_contains_def split: option.splits)

lemma execute_slot_complete:
  "qmap_value msg ''msgid'' = QString msgid \<Longrightarrow>
   qmap_value msg ''hResult'' = QString ''WFS_SUCCESS'' \<Longrightarrow>
   qmap_value msg ''message'' = QString ''WFS_EXECUTE_COMPLETE'' \<Longrightarrow>
   execute_slot this msgid dwCommand lpCmdData msg s =
     (if asserts s \<and> QString dwCommand \<noteq> qmap_value msg ''dwCommandCode''
      then Inl AssertionFailed
      else Inr (emits [ExecuteComplete this msg]
                 (disconnect this (ExecuteSlot msgid dwCommand lpCmdData)
                   (done_msgid this msgid (broadcast this msg dwCommand lpCmdData s)))))"
  by (simp add: execute_slot_def Let_def value_contains toString_def)

lemma execute_slot_event:
  "qmap_value msg ''msgid'' = QString msgid \<Longrightarrow>
   qmap_value msg ''hResult'' = QString ''WFS_SUCCESS'' \<Longrightarrow>
   qmap_value msg ''message'' = QString ''WFS_EXECUTE_EVENT'' \<Longrightarrow>
   execute_slot this msgid dwCommand lpCmdData msg s =
     Inr (emits [ExecuteEventRecieved this msg] (broadcast this msg dwCommand lpCmdData s))"
  by (simp add: execute_slot_def Let_def value_contains toString_def)

lemma execute_slot_ack:
  "qmap_value msg ''msgid'' = QString msgid \<Longrightarrow>
   qmap_value msg ''hResult'' = QString ''WFS_SUCCESS'' \<Longrightarrow>
   \<not> qmap_contains msg ''message'' \<Longrightarrow>
   execute_slot this msgid dwCommand lpCmdData msg s =
     (if asserts s \<and> QString dwCommand \<noteq> qmap_value msg ''dwCommandCode''
      then Inl AssertionFailed
      else Inr (appendCommand this (dwCommand, lpCmdData)
                 (broadcast this msg dwCommand lpCmdData s)))"
  by (simp add: execute_slot_def Let_def)

lemma cancel_slot_other:
  "qmap_value msg ''msgid'' \<noteq> QString msgid \<Longrightarrow> cancel_slot this msgid msg s = Inr s"
  by (simp add: cancel_slot_def)

lemma cancel_slot_reply:
  "qmap_value msg ''msgid'' = QString msgid \<Longrightarrow>
   cancel_slot this msgid msg s =
     Inr (emits [CancelComplete this msg] (disconnect this (CancelSlot msgid) (done_msgid this msgid s)))"
  by (simp add: cancel_slot_def)

lemma getInfo_slot_other:
  "qmap_value msg ''msgid'' \<noteq> QString msgid \<Longrightarrow> getInfo_slot this msgid category msg s = Inr s"
  by (simp add: getInfo_slot_def)

lemma getInfo_slot_failure:
  "qmap_value msg ''msgid'' = QString msgid \<Longrightarrow>
   toString (qmap_value msg ''hResult'') \<noteq> ''WFS_SUCCESS'' \<Longrightarrow>
   getInfo_slot this msgid category msg s =
     Inr (emits [Replied this (qmap_index msg ''hResult'')]
           (update_object this
              (\<lambda>ob. ob\<lparr>rv := qmap_index msg ''hResult'', loop_exited := True\<rparr>)
              (done_msgid this msgid
                (emits [GetInfoWarning (name_of s this) category
                          (toString (qmap_value msg ''hResult''))] s))))"
  by (simp add: getInfo_slot_def Let_def)

lemma getInfo_slot_success:
  "qmap_value msg ''msgid'' = QString msgid \<Longrightarrow>
   toString (qmap_value msg ''hResult'') = ''WFS_SUCCESS'' \<Longrightarrow>
   getInfo_slot this msgid category msg s =
     (if asserts s \<and> qmap_contains msg ''message''
           \<and> qmap_value msg ''message'' \<noteq> QString ''WFS_GETINFO_COMPLETE''
      then Inl AssertionFailed
      else if \<not> qmap_contains msg ''message'' then Inr s
      else Inr (emits [Replied this msg]
                 (update_object this (\<lambda>ob. ob\<lparr>rv := msg, loop_exited := True\<rparr>)
                   (done_msgid this msgid s))))"
  by (auto simp add: getInfo_slot_def Let_def toString_eq_Cons)

lemma emits_Nil [simp]: "emits [] s = s"
  by (simp add: emits_def)

lemma emits_emits [simp]: "emits es2 (emits es1 s) = emits (es1 @ es2) s"
  by (simp add: emits_def)

lemma classify_emits: "classify this msg s = emits (classified this msg s) s"
  by (simp add: classified_def classify_def Let_def)

lemma classified_emits [simp]: "classified this msg (emits es s) = classified this msg s"
  by (simp add: classified_def classify_def Let_def currentCommand_def)

lemma classified_plain:
  "toString (qmap_value msg ''message'') = [] \<Longrightarrow> classified this msg s = []"
  by (simp add: classified_def classify_def Let_def)

subsection \<open>Invariants of a delivery\<close>

lemma activate_invariant:
  assumes step: "\<And>c msg s s'. P s \<Longrightarrow> c \<in> set (connections (objects s this)) \<Longrightarrow>
                   run_slot c this msg s = Inr s' \<Longrightarrow> P s'"
  shows "P s \<Longrightarrow> activate cs this msg s = Inr s' \<Longrightarrow> P s'"
proof (induction cs arbitrary: s)
  case Nil
  then show ?case by simp
next
  case (Cons c cs)
  show ?case
  proof (cases "c \<in> set (connections (objects s this))")
    case True
    with Cons.prems obtain s1 where r: "run_slot c this msg s = Inr s1"
      and a: "activate cs this msg s1 = Inr s'"
      by (auto split: sum.splits)
    from step [OF Cons.prems(1) True r] have "P s1" .
    from Cons.IH [OF this a] show ?thesis .
  next
    case False
    with Cons.prems have "activate cs this msg s = Inr s'" by simp
    from Cons.IH [OF Cons.prems(1) this] show ?thesis .
  qed
qed

lemma emit_message_invariant:
  assumes step: "\<And>c msg s s'. P s \<Longrightarrow> c \<in> set (connections (objects s this)) \<Longrightarrow>
                   run_slot c this msg s = Inr s' \<Longrightarrow> P s'"
    and p: "P s" and r: "emit_message this msg s = Inr s'"
  shows "P s'"
  apply (rule activate_invariant [of P this s "connections (objects s this)" msg s'])
    apply (erule (2) step)
   apply (rule p)
  apply (rule r [unfolded emit_message_def])
  done

lemma emit_all_invariant:
  assumes step: "\<And>c msg s s'. P s \<Longrightarrow> c \<in> set (connections (objects s this)) \<Longrightarrow>
                   run_slot c this msg s = Inr s' \<Longrightarrow> P s'"
  shows "P s \<Longrightarrow> emit_all msgs this s = Inr s' \<Longrightarrow> P s'"
proof (induction msgs arbitrary: s)
  case Nil
  then show ?case by simp
next
  case (Cons msg msgs)
  from Cons.prems obtain s1 where r: "emit_message this msg s = Inr s1"
    and a: "emit_all msgs this s1 = Inr s'"
    by (auto split: sum.splits)
  have "P s1"
    apply (rule emit_message_invariant [of P this s msg s1])
      apply (erule (2) step)
     apply (rule Cons.prems(1))
    apply (rule r)
    done
  from Cons.IH [OF this a] show ?case .
qed

lemma disconnected_loop_invariant:
  assumes step: "\<And>c msg s s'. P s \<Longrightarrow> c \<in> set (connections (objects s this)) \<Longrightarrow>
                   run_slot c this msg s = Inr s' \<Longrightarrow> P s'"
  shows "P s \<Longrightarrow> disconnected_loop its msg this s = Inr s' \<Longrightarrow> P s'"
proof (induction its arbitrary: s msg)
  case Nil
  then show ?case by simp
next
  case (Cons it its)
  from Cons.prems obtain s1 msg' where r: "emit_message this msg' s = Inr s1"
    and a: "disconnected_loop its msg' this s1 = Inr s'"
    by (auto simp add: Let_def split: sum.splits)
  have "P s1"
    apply (rule emit_message_invariant [of P this s msg' s1])
      apply (erule (2) step)
     apply (rule Cons.prems(1))
    apply (rule r)
    done
  from Cons.IH [OF this a] show ?case .
qed

lemma deliver_invariant:
  assumes step: "\<And>c msg s s'. P s \<Longrightarrow> c \<in> set (connections (objects s this)) \<Longrightarrow>
                   run_slot c this msg s = Inr s' \<Longrightarrow> P s'"
    and p: "P s" and d: "deliver ev this s = Inr s'"
  shows "P s'"
proof (cases ev)
  case (ReadyRead msgs)
  from d ReadyRead have a: "emit_all msgs this s = Inr s'" by simp
  show ?thesis
    apply (rule emit_all_invariant [of P this s msgs s'])
      apply (erule (2) step)
     apply (rule p)
    apply (rule a)
    done
next
  case SocketDisconnected
  from d SocketDisconnected have a: "disconnected_loop (m_pending (objects s this))
       [(''hResult'', QString ''WFS_ERR_CONNECTION_LOST'')] this s = Inr s'"
    by (simp add: disconnected_def)
  show ?thesis
    apply (rule disconnected_loop_invariant [of P this s _ _ s'])
      apply (erule (2) step)
     apply (rule p)
    apply (rule a)
    done
qed

lemma exec_invariant:
  assumes step: "\<And>c msg s s'. P s \<Longrightarrow> c \<in> set (connections (objects s this)) \<Longrightarrow>
                   run_slot c this msg s = Inr s' \<Longrightarrow> P s'"
  shows "P s \<Longrightarrow> exec evs this s = Inr (s', r) \<Longrightarrow> P s'"
proof (induction evs arbitrary: s)
  case Nil
  then show ?case by simp
next
  case (Cons ev evs)
  from Cons.prems(2) obtain s1 where d: "deliver ev this s = Inr s1"
    by (auto split: sum.splits)
  have p1: "P s1"
    apply (rule deliver_invariant [of P this s ev s1])
      apply (erule (2) step)
     apply (rule Cons.prems(1))
    apply (rule d)
    done
  show ?case
  proof (cases "loop_exited (objects s1 this)")
    case True
    with Cons.prems(2) d have "s' = s1" by simp
    with p1 show ?thesis by simp
  next
    case False
    with Cons.prems(2) d have "exec evs this s1 = Inr (s', r)" by simp
    from Cons.IH [OF p1 this] show ?thesis .
  qed
qed

lemma syncCancel_exec_invariant:
  assumes step: "\<And>c msg s s'. P s \<Longrightarrow> c \<in> set (connections (objects s this)) \<Longrightarrow>
                   run_slot c this msg s = Inr s' \<Longrightarrow> P s'"
  shows "P s \<Longrightarrow> syncCancel_exec evs this fr s = Inr (s', r) \<Longrightarrow> P s'"
proof (induction evs arbitrary: s fr)
  case Nil
  then show ?case by simp
next
  case (Cons ev evs)
  from Cons.prems(2) obtain s1 where d: "deliver ev this s = Inr s1"
    by (auto split: sum.splits)
  have p1: "P s1"
    apply (rule deliver_invariant [of P this s ev s1])
      apply (erule (2) step)
     apply (rule Cons.prems(1))
    apply (rule d)
    done
  define fr' where "fr' = foldl (signalled this) fr (drop (length (effects s)) (effects s1))"
  show ?case
  proof (cases "exited fr'")
    case True
    with Cons.prems(2) d have "s' = s1" by (simp add: fr'_def Let_def)
    with p1 show ?thesis by simp
  next
    case False
    with Cons.prems(2) d have "syncCancel_exec evs this fr' s1 = Inr (s', r)"
      by (simp add: fr'_def Let_def)
    from Cons.IH [OF p1 this] show ?thesis .
  qed
qed

subsection \<open>The slot of a request\<close>

lemma run_slot_quiet:
  "slot_msgid c \<noteq> Some msgid \<Longrightarrow> qmap_value msg ''msgid'' = QString msgid \<Longrightarrow>
   run_slot c this msg s = Inr (emits (if c = Classify then classified this msg s else []) s)"
  by (cases c) (simp_all add: classify_emits execute_slot_other getInfo_slot_other cancel_slot_other)

lemma activate_quiet:
  "\<forall>c\<in>set cs. slot_msgid c \<noteq> Some msgid \<Longrightarrow> qmap_value msg ''msgid'' = QString msgid \<Longrightarrow>
   \<exists>es. set es \<subseteq> set (classified this msg s) \<and> activate cs this msg s = Inr (emits es s)"
proof (induction cs arbitrary: s)
  case Nil
  have "set [] \<subseteq> set (classified this msg s) \<and> activate [] this msg s = Inr (emits [] s)" by simp
  then show ?case by blast
next
  case (Cons c cs)
  from Cons.prems have q: "slot_msgid c \<noteq> Some msgid" and qs: "\<forall>c\<in>set cs. slot_msgid c \<noteq> Some msgid"
    by simp_all
  define es0 where "es0 = (if c \<in> set (connections (objects s this)) \<and> c = Classify
                           then classified this msg s else [])"
  have first: "activate (c # cs) this msg s = activate cs this msg (emits es0 s)"
    using run_slot_quiet [OF q Cons.prems(2), of this s] by (auto simp add: es0_def)
  from Cons.IH [OF qs Cons.prems(2), of "emits es0 s"] obtain es
    where es: "set es \<subseteq> set (classified this msg s)"
      and a: "activate cs this msg (emits es0 s) = Inr (emits es (emits es0 s))"
    by auto
  have "set (es0 @ es) \<subseteq> set (classified this msg s)" using es by (auto simp add: es0_def)
  moreover have "activate (c # cs) this msg s = Inr (emits (es0 @ es) s)" using first a by simp
  ultimately show ?case by blast
qed

lemma activate_append:
  "activate (us @ vs) this msg s =
     (case activate us this msg s of Inl e \<Rightarrow> Inl e | Inr s' \<Rightarrow> activate vs this msg s')"
  by (induction us arbitrary: s) (auto split: sum.splits)

lemma emit_message_request:
  assumes only: "slots_of (objects s this) msgid = [X]"
    and msgid: "qmap_value msg ''msgid'' = QString msgid"
  shows "\<exists>es1. set es1 \<subseteq> set (classified this msg s) \<and>
           (case run_slot X this msg (emits es1 s) of
              Inl e \<Rightarrow> emit_message this msg s = Inl e
            | Inr s1 \<Rightarrow> \<exists>es2. set es2 \<subseteq> set (classified this msg s1)
                            \<and> emit_message this msg s = Inr (emits es2 s1))"
proof -
  from only obtain us vs where split: "connections (objects s this) = us @ X # vs"
    and us: "\<forall>u\<in>set us. slot_msgid u \<noteq> Some msgid"
    and vs: "filter (\<lambda>c. slot_msgid c = Some msgid) vs = []"
    unfolding slots_of_def by (auto simp add: filter_eq_Cons_iff)
  from vs have vs': "\<forall>v\<in>set vs. slot_msgid v \<noteq> Some msgid"
    by (simp add: filter_empty_conv)
  from activate_quiet [OF us msgid, of this s] obtain es1
    where es1: "set es1 \<subseteq> set (classified this msg s)"
      and a1: "activate us this msg s = Inr (emits es1 s)"
    by auto
  have member: "X \<in> set (connections (objects (emits es1 s) this))"
    using split by simp
  have whole: "emit_message this msg s =
      (case run_slot X this msg (emits es1 s) of
         Inl e \<Rightarrow> Inl e | Inr s1 \<Rightarrow> activate vs this msg s1)"
    using a1 member by (simp add: emit_message_def split activate_append)
  show ?thesis
  proof (cases "run_slot X this msg (emits es1 s)")
    case (Inl e)
    with whole es1 show ?thesis by (intro exI [of _ es1]) simp
  next
    case (Inr s1)
    from activate_quiet [OF vs' msgid, of this s1] obtain es2
      where "set es2 \<subseteq> set (classified this msg s1)"
        and "activate vs this msg s1 = Inr (emits es2 s1)"
      by auto
    with whole Inr es1 show ?thesis by (intro exI [of _ es1]) auto
  qed
qed

section \<open>Finalizing a request\<close>

text \<open>
  C9.  When the slot of an execute request, of a cancel request or of a \<open>getInfo\<close>
  request finalizes it (\<open>done(msgid)\<close>), the pending entry is removed and the head of
  the command queue of the proxy's device identity is dropped if there is one, whoever
  appended it: nothing is assumed about the queue.
\<close>

theorem finalizing_pops_queue_head:
  "(execute_slot this msgid dwCommand lpCmdData msg s = Inr s1 \<longrightarrow>
      qmap_value msg ''msgid'' = QString msgid \<longrightarrow>
      (qmap_value msg ''hResult'' \<noteq> QString ''WFS_SUCCESS''
         \<or> qmap_value msg ''message'' = QString ''WFS_EXECUTE_COMPLETE'') \<longrightarrow>
      map_of (m_pending (objects s1 this)) msgid = None
      \<and> commands s1 = (commands s)(name_of s this := drop 1 (commands s (name_of s this))))
   \<and> (cancel_slot this msgid msg s = Inr s2 \<longrightarrow>
      qmap_value msg ''msgid'' = QString msgid \<longrightarrow>
      map_of (m_pending (objects s2 this)) msgid = None
      \<and> commands s2 = (commands s)(name_of s this := drop 1 (commands s (name_of s this))))
   \<and> (getInfo_slot this msgid category msg s = Inr s3 \<longrightarrow>
      qmap_value msg ''msgid'' = QString msgid \<longrightarrow>
      (toString (qmap_value msg ''hResult'') \<noteq> ''WFS_SUCCESS'' \<or> qmap_contains msg ''message'') \<longrightarrow>
      map_of (m_pending (objects s3 this)) msgid = None
      \<and> commands s3 = (commands s)(name_of s this := drop 1 (commands s (name_of s this))))"
proof (intro conjI impI)
  assume r: "execute_slot this msgid dwCommand lpCmdData msg s = Inr s1"
    and m: "qmap_value msg ''msgid'' = QString msgid"
    and c: "qmap_value msg ''hResult'' \<noteq> QString ''WFS_SUCCESS''
         \<or> qmap_value msg ''message'' = QString ''WFS_EXECUTE_COMPLETE''"
  have "s1 = emits [ExecuteComplete this (qmap_index msg ''hResult'')]
           (disconnect this (ExecuteSlot msgid dwCommand lpCmdData)
             (done_msgid this msgid (broadcast this msg dwCommand lpCmdData s)))"
  proof (cases "qmap_value msg ''hResult'' = QString ''WFS_SUCCESS''")
    case True
    with c have "qmap_value msg ''message'' = QString ''WFS_EXECUTE_COMPLETE''" by simp
    with r m True show ?thesis
      by (simp add: execute_slot_complete split: if_splits)
  next
    case False
    with r m show ?thesis by (simp add: execute_slot_failure)
  qed
  then show "map_of (m_pending (objects s1 this)) msgid = None"
    and "commands s1 = (commands s)(name_of s this := drop 1 (commands s (name_of s this)))"
    by simp_all
next
  assume r: "cancel_slot this msgid msg s = Inr s2"
    and m: "qmap_value msg ''msgid'' = QString msgid"
  then have "s2 = emits [CancelComplete this msg] (disconnect this (CancelSlot msgid) (done_msgid this msgid s))"
    by (simp add: cancel_slot_reply)
  then show "map_of (m_pending (objects s2 this)) msgid = None"
    and "commands s2 = (commands s)(name_of s this := drop 1 (commands s (name_of s this)))"
    by simp_all
next
  assume r: "getInfo_slot this msgid category msg s = Inr s3"
    and m: "qmap_value msg ''msgid'' = QString msgid"
    and c: "toString (qmap_value msg ''hResult'') \<noteq> ''WFS_SUCCESS'' \<or> qmap_contains msg ''message''"
  have "\<exists>m' es es'. s3 = emits es' (update_object this (\<lambda>ob. ob\<lparr>rv := m', loop_exited := True\<rparr>)
            (done_msgid this msgid (emits es s)))"
  proof (cases "toString (qmap_value msg ''hResult'') = ''WFS_SUCCESS''")
    case True
    with c have "qmap_contains msg ''message''" by simp
    with r m True have "s3 = emits [Replied this msg]
            (update_object this (\<lambda>ob. ob\<lparr>rv := msg, loop_exited := True\<rparr>)
              (done_msgid this msgid (emits [] s)))"
      by (simp add: getInfo_slot_success split: if_splits)
    then show ?thesis by blast
  next
    case False
    from r m getInfo_slot_failure [OF m False, of this category s] show ?thesis by auto
  qed
  then show "map_of (m_pending (objects s3 this)) msgid = None"
    and "commands s3 = (commands s)(name_of s this := drop 1 (commands s (name_of s this)))"
    by auto
qed

text \<open>An acknowledged \<open>EJECT\<close> is at the head of the queue of \<open>CRD1\<close>; the failure of
  the execute request, the reply to a cancel request and a failed \<open>getInfo\<close> reply each
  take it off.\<close>

theorem finalizing_pops_queue_head_witness:
  "commands crd1_cancelling ''CRD1'' = [(''EJECT'', Invalid)]
   \<and> commands (projr (execute_slot 10 ''{e}'' ''EJECT'' Invalid eject_failed crd1_cancelling)) ''CRD1'' = []
   \<and> commands (projr (cancel_slot 10 ''{c}'' cancel_done crd1_cancelling)) ''CRD1'' = []
   \<and> commands (projr (getInfo_slot 10 ''{g}'' ''WFS_INF_CRD_STATUS'' info_failed crd1_cancelling))
        ''CRD1'' = []"
proof -
  have q: "commands crd1_cancelling ''CRD1'' = [(''EJECT'', Invalid)]" by code_simp
  have n: "name_of crd1_cancelling 10 = ''CRD1''" by code_simp
  have e1: "execute_slot 10 ''{e}'' ''EJECT'' Invalid eject_failed crd1_cancelling
              = Inr (projr (execute_slot 10 ''{e}'' ''EJECT'' Invalid eject_failed crd1_cancelling))"
    by (rule sum.collapse(2) [symmetric]) code_simp
  have e2: "qmap_value eject_failed ''msgid'' = QString ''{e}''" by code_simp
  have e3: "qmap_value eject_failed ''hResult'' \<noteq> QString ''WFS_SUCCESS''" by code_simp
  have c1: "cancel_slot 10 ''{c}'' cancel_done crd1_cancelling
              = Inr (projr (cancel_slot 10 ''{c}'' cancel_done crd1_cancelling))"
    by (rule sum.collapse(2) [symmetric]) code_simp
  have c2: "qmap_value cancel_done ''msgid'' = QString ''{c}''" by code_simp
  have g1: "getInfo_slot 10 ''{g}'' ''WFS_INF_CRD_STATUS'' info_failed crd1_cancelling
              = Inr (projr (getInfo_slot 10 ''{g}'' ''WFS_INF_CRD_STATUS'' info_failed crd1_cancelling))"
    by (rule sum.collapse(2) [symmetric]) code_simp
  have g2: "qmap_value info_failed ''msgid'' = QString ''{g}''" by code_simp
  have g3: "toString (qmap_value info_failed ''hResult'') \<noteq> ''WFS_SUCCESS''" by code_simp
  from finalizing_pops_queue_head [of 10 "''{e}''" "''EJECT''" Invalid eject_failed crd1_cancelling
      "projr (execute_slot 10 ''{e}'' ''EJECT'' Invalid eject_failed crd1_cancelling)"]
    e1 e2 e3 q n
  have a: "commands (projr (execute_slot 10 ''{e}'' ''EJECT'' Invalid eject_failed crd1_cancelling)) ''CRD1'' = []"
    by simp
  from finalizing_pops_queue_head [of 10 "''{c}''" _ _ cancel_done crd1_cancelling _
      "projr (cancel_slot 10 ''{c}'' cancel_done crd1_cancelling)"]
    c1 c2 q n
  have b: "commands (projr (cancel_slot 10 ''{c}'' cancel_done crd1_cancelling)) ''CRD1'' = []"
    by simp
  from finalizing_pops_queue_head [of 10 "''{g}''" _ _ info_failed crd1_cancelling _ _
      "''WFS_INF_CRD_STATUS''"
      "projr (getInfo_slot 10 ''{g}'' ''WFS_INF_CRD_STATUS'' info_failed crd1_cancelling)"]
    g1 g2 g3 q n
  have c: "commands (projr (getInfo_slot 10 ''{g}'' ''WFS_INF_CRD_STATUS'' info_failed crd1_cancelling)) ''CRD1'' = []"
    by simp
  from q a b c show ?thesis by simp
qed

section \<open>The completion protocol of execute\<close>

lemma execute_request_outcome:
  assumes only: "slots_of (objects s this) msgid = [ExecuteSlot msgid dwCommand lpCmdData]"
    and msgid: "qmap_value msg ''msgid'' = QString msgid"
  shows "\<exists>es1. (\<forall>e. execute_slot this msgid dwCommand lpCmdData msg (emits es1 s) = Inl e
                    \<longrightarrow> emit_message this msg s = Inl e)
            \<and> (\<forall>s1. execute_slot this msgid dwCommand lpCmdData msg (emits es1 s) = Inr s1
                    \<longrightarrow> (\<exists>es2. emit_message this msg s = Inr (emits es2 s1)))"
proof -
  from emit_message_request [OF only msgid] obtain es1 where
    r: "case run_slot (ExecuteSlot msgid dwCommand lpCmdData) this msg (emits es1 s) of
          Inl e \<Rightarrow> emit_message this msg s = Inl e
        | Inr s1 \<Rightarrow> \<exists>es2. set es2 \<subseteq> set (classified this msg s1)
                        \<and> emit_message this msg s = Inr (emits es2 s1)"
    by blast
  show ?thesis
    by (rule exI [of _ es1]) (use r in \<open>auto split: sum.splits\<close>)
qed

text \<open>
  C1, as amended.  A frame whose id is that of a pending execute request, the request
  having its one slot connected: a failure result completes the request with
  \<open>executeComplete\<close> and removes the pending entry; a success with the execute-complete
  marker does the same; a success with the intermediate-event marker emits
  \<open>executeEventRecieved\<close> and leaves the pending map alone; a success without a marker
  appends the command and its payload to the queue of the device identity and leaves the
  pending map alone.  For the complete and the unmarked frame this holds when the frame
  echoes the command code in \<open>dwCommandCode\<close> or assertions are compiled out.
\<close>

theorem execute_completion_protocol:
  assumes only: "slots_of (objects s this) msgid = [ExecuteSlot msgid dwCommand lpCmdData]"
    and msgid: "qmap_value msg ''msgid'' = QString msgid"
  shows "(qmap_value msg ''hResult'' \<noteq> QString ''WFS_SUCCESS'' \<longrightarrow>
            (\<exists>s' es. emit_message this msg s = Inr s' \<and> effects s' = effects s @ es
               \<and> ExecuteComplete this (qmap_index msg ''hResult'') \<in> set es
               \<and> map_of (m_pending (objects s' this)) msgid = None))
       \<and> (qmap_value msg ''hResult'' = QString ''WFS_SUCCESS''
            \<and> qmap_value msg ''message'' = QString ''WFS_EXECUTE_COMPLETE''
            \<and> (asserts s \<longrightarrow> qmap_value msg ''dwCommandCode'' = QString dwCommand) \<longrightarrow>
            (\<exists>s' es. emit_message this msg s = Inr s' \<and> effects s' = effects s @ es
               \<and> ExecuteComplete this msg \<in> set es
               \<and> map_of (m_pending (objects s' this)) msgid = None))
       \<and> (qmap_value msg ''hResult'' = QString ''WFS_SUCCESS''
            \<and> qmap_value msg ''message'' = QString ''WFS_EXECUTE_EVENT'' \<longrightarrow>
            (\<exists>s' es. emit_message this msg s = Inr s' \<and> effects s' = effects s @ es
               \<and> ExecuteEventRecieved this msg \<in> set es
               \<and> m_pending (objects s' this) = m_pending (objects s this)))
       \<and> (qmap_value msg ''hResult'' = QString ''WFS_SUCCESS''
            \<and> \<not> qmap_contains msg ''message''
            \<and> (asserts s \<longrightarrow> qmap_value msg ''dwCommandCode'' = QString dwCommand) \<longrightarrow>
            (\<exists>s'. emit_message this msg s = Inr s'
               \<and> commands s' = (commands s)
                    (name_of s this := commands s (name_of s this) @ [(dwCommand, lpCmdData)])
               \<and> m_pending (objects s' this) = m_pending (objects s this)))"
proof -
  from execute_request_outcome [OF only msgid] obtain es1 where
    run: "\<And>s1. execute_slot this msgid dwCommand lpCmdData msg (emits es1 s) = Inr s1
                 \<Longrightarrow> \<exists>es2. emit_message this msg s = Inr (emits es2 s1)"
    by blast
  have failure: "\<exists>s' es. emit_message this msg s = Inr s' \<and> effects s' = effects s @ es
               \<and> ExecuteComplete this (qmap_index msg ''hResult'') \<in> set es
               \<and> map_of (m_pending (objects s' this)) msgid = None"
    if f: "qmap_value msg ''hResult'' \<noteq> QString ''WFS_SUCCESS''"
  proof -
    from run [OF execute_slot_failure [OF msgid f]] obtain es2 where
      e: "emit_message this msg s =
            Inr (emits es2 (emits [ExecuteComplete this (qmap_index msg ''hResult'')]
                   (disconnect this (ExecuteSlot msgid dwCommand lpCmdData)
                     (done_msgid this msgid
                       (broadcast this msg dwCommand lpCmdData (emits es1 s))))))"
      (is "_ = Inr ?s'")
      by blast
    have "effects ?s' = effects s @ drop (length (effects s)) (effects ?s')"
      by (simp add: broadcast_def)
    moreover have "ExecuteComplete this (qmap_index msg ''hResult'')
                     \<in> set (drop (length (effects s)) (effects ?s'))"
      by (simp add: broadcast_def)
    moreover have "map_of (m_pending (objects ?s' this)) msgid = None" by simp
    ultimately show ?thesis using e by blast
  qed
  have complete: "\<exists>s' es. emit_message this msg s = Inr s' \<and> effects s' = effects s @ es
               \<and> ExecuteComplete this msg \<in> set es
               \<and> map_of (m_pending (objects s' this)) msgid = None"
    if ok: "qmap_value msg ''hResult'' = QString ''WFS_SUCCESS''"
      and marker: "qmap_value msg ''message'' = QString ''WFS_EXECUTE_COMPLETE''"
      and echo: "asserts s \<longrightarrow> qmap_value msg ''dwCommandCode'' = QString dwCommand"
  proof -
    have "execute_slot this msgid dwCommand lpCmdData msg (emits es1 s) =
            Inr (emits [ExecuteComplete this msg]
                  (disconnect this (ExecuteSlot msgid dwCommand lpCmdData)
                    (done_msgid this msgid
                      (broadcast this msg dwCommand lpCmdData (emits es1 s)))))"
      using echo by (auto simp add: execute_slot_complete [OF msgid ok marker])
    from run [OF this] obtain es2 where
      e: "emit_message this msg s =
            Inr (emits es2 (emits [ExecuteComplete this msg]
                   (disconnect this (ExecuteSlot msgid dwCommand lpCmdData)
                     (done_msgid this msgid
                       (broadcast this msg dwCommand lpCmdData (emits es1 s))))))"
      (is "_ = Inr ?s'")
      by blast
    have "effects ?s' = effects s @ drop (length (effects s)) (effects ?s')"
      by (simp add: broadcast_def)
    moreover have "ExecuteComplete this msg \<in> set (drop (length (effects s)) (effects ?s'))"
      by (simp add: broadcast_def)
    moreover have "map_of (m_pending (objects ?s' this)) msgid = None" by simp
    ultimately show ?thesis using e by blast
  qed
  have event: "\<exists>s' es. emit_message this msg s = Inr s' \<and> effects s' = effects s @ es
               \<and> ExecuteEventRecieved this msg \<in> set es
               \<and> m_pending (objects s' this) = m_pending (objects s this)"
    if ok: "qmap_value msg ''hResult'' = QString ''WFS_SUCCESS''"
      and marker: "qmap_value msg ''message'' = QString ''WFS_EXECUTE_EVENT''"
  proof -
    from run [OF execute_slot_event [OF msgid ok marker]] obtain es2 where
      e: "emit_message this msg s =
            Inr (emits es2 (emits [ExecuteEventRecieved this msg]
                   (broadcast this msg dwCommand lpCmdData (emits es1 s))))"
      (is "_ = Inr ?s'")
      by blast
    have "effects ?s' = effects s @ drop (length (effects s)) (effects ?s')"
      by (simp add: broadcast_def)
    moreover have "ExecuteEventRecieved this msg \<in> set (drop (length (effects s)) (effects ?s'))"
      by (simp add: broadcast_def)
    moreover have "m_pending (objects ?s' this) = m_pending (objects s this)" by simp
    ultimately show ?thesis using e by blast
  qed
  have ack: "\<exists>s'. emit_message this msg s = Inr s'
               \<and> commands s' = (commands s)
                    (name_of s this := commands s (name_of s this) @ [(dwCommand, lpCmdData)])
               \<and> m_pending (objects s' this) = m_pending (objects s this)"
    if ok: "qmap_value msg ''hResult'' = QString ''WFS_SUCCESS''"
      and marker: "\<not> qmap_contains msg ''message''"
      and echo: "asserts s \<longrightarrow> qmap_value msg ''dwCommandCode'' = QString dwCommand"
  proof -
    have "execute_slot this msgid dwCommand lpCmdData msg (emits es1 s) =
            Inr (appendCommand this (dwCommand, lpCmdData)
                  (broadcast this msg dwCommand lpCmdData (emits es1 s)))"
      using echo by (auto simp add: execute_slot_ack [OF msgid ok marker])
    from run [OF this] obtain es2 where
      e: "emit_message this msg s =
            Inr (emits es2 (appendCommand this (dwCommand, lpCmdData)
                  (broadcast this msg dwCommand lpCmdData (emits es1 s))))"
      by blast
    then show ?thesis by simp
  qed
  from failure complete event ack show ?thesis by blast
qed

text \<open>On the pending \<open>EJECT\<close> of \<open>CRD1\<close>, in a build with assertions, each of the four
  frames.\<close>

theorem execute_completion_protocol_witness:
  "slots_of (objects crd1_eject 10) ''{e}'' = [ExecuteSlot ''{e}'' ''EJECT'' Invalid]
   \<and> asserts crd1_eject
   \<and> (\<exists>s' es. emit_message 10 eject_failed crd1_eject = Inr s'
         \<and> effects s' = effects crd1_eject @ es
         \<and> ExecuteComplete 10 eject_failed \<in> set es
         \<and> map_of (m_pending (objects s' 10)) ''{e}'' = None)
   \<and> (\<exists>s' es. emit_message 10 eject_complete crd1_eject = Inr s'
         \<and> effects s' = effects crd1_eject @ es
         \<and> ExecuteComplete 10 eject_complete \<in> set es
         \<and> map_of (m_pending (objects s' 10)) ''{e}'' = None)
   \<and> (\<exists>s' es. emit_message 10 eject_event crd1_eject = Inr s'
         \<and> effects s' = effects crd1_eject @ es
         \<and> ExecuteEventRecieved 10 eject_event \<in> set es
         \<and> m_pending (objects s' 10) = [(''{e}'', ''EJECT'')])
   \<and> (\<exists>s'. emit_message 10 eject_ack crd1_eject = Inr s'
         \<and> commands s' ''CRD1'' = [(''EJECT'', Invalid)]
         \<and> m_pending (objects s' 10) = [(''{e}'', ''EJECT'')])"
proof -
  have only: "slots_of (objects crd1_eject 10) ''{e}'' = [ExecuteSlot ''{e}'' ''EJECT'' Invalid]"
    by code_simp
  have dbg: "asserts crd1_eject" by code_simp
  have pend: "m_pending (objects crd1_eject 10) = [(''{e}'', ''EJECT'')]" by code_simp
  have queue: "commands crd1_eject ''CRD1'' = []" by code_simp
  have name: "name_of crd1_eject 10 = ''CRD1''" by code_simp
  have f: "qmap_value eject_failed ''msgid'' = QString ''{e}''"
    "qmap_value eject_failed ''hResult'' \<noteq> QString ''WFS_SUCCESS''"
    "qmap_index eject_failed ''hResult'' = eject_failed"
    by code_simp+
  have c: "qmap_value eject_complete ''msgid'' = QString ''{e}''"
    "qmap_value eject_complete ''hResult'' = QString ''WFS_SUCCESS''"
    "qmap_value eject_complete ''message'' = QString ''WFS_EXECUTE_COMPLETE''"
    "qmap_value eject_complete ''dwCommandCode'' = QString ''EJECT''"
    by code_simp+
  have e: "qmap_value eject_event ''msgid'' = QString ''{e}''"
    "qmap_value eject_event ''hResult'' = QString ''WFS_SUCCESS''"
    "qmap_value eject_event ''message'' = QString ''WFS_EXECUTE_EVENT''"
    by code_simp+
  have a: "qmap_value eject_ack ''msgid'' = QString ''{e}''"
    "qmap_value eject_ack ''hResult'' = QString ''WFS_SUCCESS''"
    "\<not> qmap_contains eject_ack ''message''"
    "qmap_value eject_ack ''dwCommandCode'' = QString ''EJECT''"
    by code_simp+
  from execute_completion_protocol [OF only f(1)] f(2,3)
  have 1: "\<exists>s' es. emit_message 10 eject_failed crd1_eject = Inr s'
         \<and> effects s' = effects crd1_eject @ es
         \<and> ExecuteComplete 10 eject_failed \<in> set es
         \<and> map_of (m_pending (objects s' 10)) ''{e}'' = None"
    by simp
  from execute_completion_protocol [OF only c(1)] c(2,3,4)
  have 2: "\<exists>s' es. emit_message 10 eject_complete crd1_eject = Inr s'
         \<and> effects s' = effects crd1_eject @ es
         \<and> ExecuteComplete 10 eject_complete \<in> set es
         \<and> map_of (m_pending (objects s' 10)) ''{e}'' = None"
    by simp
  from execute_completion_protocol [OF only e(1)] e(2,3) pend
  have 3: "\<exists>s' es. emit_message 10 eject_event crd1_eject = Inr s'
         \<and> effects s' = effects crd1_eject @ es
         \<and> ExecuteEventRecieved 10 eject_event \<in> set es
         \<and> m_pending (objects s' 10) = [(''{e}'', ''EJECT'')]"
    by simp
  from execute_completion_protocol [OF only a(1)] a(2,3,4) pend queue name
  have 4: "\<exists>s'. emit_message 10 eject_ack crd1_eject = Inr s'
         \<and> commands s' ''CRD1'' = [(''EJECT'', Invalid)]
         \<and> m_pending (objects s' 10) = [(''{e}'', ''EJECT'')]"
    by auto
  from only dbg 1 2 3 4 show ?thesis by blast
qed

text \<open>
  C1 as stated fails in a build with assertions: the reply to the pending \<open>EJECT\<close> below
  reports success and carries the execute-complete marker, but echoes another command
  code; \<open>Q_ASSERT(dwCommand == msg["dwCommandCode"])\<close> aborts the dispatch before the
  request is finalized, so nothing completes and nobody is notified.
\<close>

theorem execute_completion_counterexample:
  "slots_of (objects crd1_eject 10) ''{e}'' = [ExecuteSlot ''{e}'' ''EJECT'' Invalid]
   \<and> m_pending (objects crd1_eject 10) = [(''{e}'', ''EJECT'')]
   \<and> qmap_value retain_complete ''msgid'' = QString ''{e}''
   \<and> qmap_value retain_complete ''hResult'' = QString ''WFS_SUCCESS''
   \<and> qmap_value retain_complete ''message'' = QString ''WFS_EXECUTE_COMPLETE''
   \<and> (case emit_message 10 retain_complete crd1_eject of
         Inl e \<Rightarrow> e = AssertionFailed
       | Inr s' \<Rightarrow> False)"
  by code_simp

section \<open>Broadcast of completions\<close>

text \<open>
  C5.  When a frame completes a pending execute request (a failure result, or a success
  with the execute-complete marker, and the dispatch is not aborted), every proxy in the
  registry \<open>devices\<close> whose object name is that of the issuing proxy emits
  \<open>executeEventBroadcasted\<close> with the frame, the command code and the payload of the
  request, whether or not it issued the request.
\<close>

theorem completion_is_broadcast:
  assumes only: "slots_of (objects s this) msgid = [ExecuteSlot msgid dwCommand lpCmdData]"
    and msgid: "qmap_value msg ''msgid'' = QString msgid"
    and completion: "qmap_value msg ''hResult'' \<noteq> QString ''WFS_SUCCESS''
                     \<or> qmap_value msg ''message'' = QString ''WFS_EXECUTE_COMPLETE''"
    and result: "emit_message this msg s = Inr s'"
  shows "\<exists>es. effects s' = effects s @ es
           \<and> (\<forall>device \<in> set (devices s). name_of s device = name_of s this \<longrightarrow>
                 ExecuteEventBroadcasted device msg dwCommand lpCmdData \<in> set es)"
proof -
  from execute_request_outcome [OF only msgid] obtain es1 where
    abort: "\<And>e. execute_slot this msgid dwCommand lpCmdData msg (emits es1 s) = Inl e
                 \<Longrightarrow> emit_message this msg s = Inl e"
    and run: "\<And>s1. execute_slot this msgid dwCommand lpCmdData msg (emits es1 s) = Inr s1
                 \<Longrightarrow> \<exists>es2. emit_message this msg s = Inr (emits es2 s1)"
    by blast
  have "\<exists>m. execute_slot this msgid dwCommand lpCmdData msg (emits es1 s) =
            Inr (emits [ExecuteComplete this m]
                  (disconnect this (ExecuteSlot msgid dwCommand lpCmdData)
                    (done_msgid this msgid
                      (broadcast this msg dwCommand lpCmdData (emits es1 s)))))"
  proof (cases "qmap_value msg ''hResult'' = QString ''WFS_SUCCESS''")
    case True
    with completion have marker: "qmap_value msg ''message'' = QString ''WFS_EXECUTE_COMPLETE''"
      by simp
    show ?thesis
    proof (cases "execute_slot this msgid dwCommand lpCmdData msg (emits es1 s)")
      case (Inl e)
      from abort [OF this] result show ?thesis by simp
    next
      case (Inr s1)
      then show ?thesis
        by (auto simp add: execute_slot_complete [OF msgid True marker] split: if_splits)
    qed
  next
    case False
    from execute_slot_failure [OF msgid False] show ?thesis by blast
  qed
  then obtain m where "execute_slot this msgid dwCommand lpCmdData msg (emits es1 s) =
            Inr (emits [ExecuteComplete this m]
                  (disconnect this (ExecuteSlot msgid dwCommand lpCmdData)
                    (done_msgid this msgid
                      (broadcast this msg dwCommand lpCmdData (emits es1 s)))))"
    by blast
  from run [OF this] result obtain es2 where
    s': "s' = emits es2 (emits [ExecuteComplete this m]
                  (disconnect this (ExecuteSlot msgid dwCommand lpCmdData)
                    (done_msgid this msgid
                      (broadcast this msg dwCommand lpCmdData (emits es1 s)))))"
    by auto
  have "effects s' = effects s @ drop (length (effects s)) (effects s')"
    by (simp add: s' broadcast_def)
  moreover have "\<forall>device \<in> set (devices s). name_of s device = name_of s this \<longrightarrow>
      ExecuteEventBroadcasted device msg dwCommand lpCmdData
        \<in> set (drop (length (effects s)) (effects s'))"
    by (auto simp add: s' broadcast_def)
  ultimately show ?thesis by blast
qed

text \<open>Two proxies, at 10 and at 20, stand for \<open>CRD1\<close>; the one at 10 issued \<open>EJECT\<close>.
  Its failure is broadcast on both.\<close>

theorem completion_is_broadcast_witness:
  "devices crd1_eject = [10, 20]
   \<and> name_of crd1_eject 20 = name_of crd1_eject 10
   \<and> ExecuteEventBroadcasted 10 eject_failed ''EJECT'' Invalid
        \<in> set (effects (projr (emit_message 10 eject_failed crd1_eject)))
   \<and> ExecuteEventBroadcasted 20 eject_failed ''EJECT'' Invalid
        \<in> set (effects (projr (emit_message 10 eject_failed crd1_eject)))"
proof -
  have only: "slots_of (objects crd1_eject 10) ''{e}'' = [ExecuteSlot ''{e}'' ''EJECT'' Invalid]"
    by code_simp
  have f: "qmap_value eject_failed ''msgid'' = QString ''{e}''"
    "qmap_value eject_failed ''hResult'' \<noteq> QString ''WFS_SUCCESS''"
    by code_simp+
  have r: "emit_message 10 eject_failed crd1_eject
             = Inr (projr (emit_message 10 eject_failed crd1_eject))"
    by (rule sum.collapse(2) [symmetric]) code_simp
  have d: "devices crd1_eject = [10, 20]" by code_simp
  have n: "name_of crd1_eject 20 = name_of crd1_eject 10" by code_simp
  from completion_is_broadcast [OF only f(1) disjI1 [OF f(2)] r] d n
  show ?thesis by auto
qed

section \<open>Loss of the connection\<close>

lemma lost_first:
  "qmap_insert ''dwCommandCode'' (QString (snd it))
     (qmap_insert ''msgid'' (QString (fst it))
        [(''hResult'', QString ''WFS_ERR_CONNECTION_LOST'')]) = lost it"
  by (simp add: lost_def)

lemma lost_next:
  "qmap_insert ''dwCommandCode'' (QString (snd it))
     (qmap_insert ''msgid'' (QString (fst it)) (lost it')) = lost it"
  by (simp add: lost_def)

lemma lost_fields [simp]:
  "qmap_value (lost it) ''msgid'' = QString (fst it)"
  "qmap_value (lost it) ''hResult'' = QString ''WFS_ERR_CONNECTION_LOST''"
  "qmap_value (lost it) ''dwCommandCode'' = QString (snd it)"
  "qmap_value (lost it) ''message'' = Invalid"
  "qmap_index (lost it) ''hResult'' = lost it"
  by (simp_all add: lost_def qmap_value_def qmap_index_def qmap_contains_def)

lemma classified_lost [simp]: "classified this (lost it) s = []"
  by (rule classified_plain) (simp add: toString_def)

lemma filter_removeAll_other: "\<not> P x \<Longrightarrow> filter P (removeAll x xs) = filter P xs"
  by (induction xs) auto

lemma distinct_fst_head:
  assumes "distinct (map fst (it # its))" and "x \<in> set its"
  shows "fst x \<noteq> fst it"
proof -
  from assms(1) have "fst it \<notin> fst ` set its" by simp
  moreover from assms(2) have "fst x \<in> fst ` set its" by (rule imageI)
  ultimately show ?thesis by metis
qed

text \<open>One turn of the loop, on a pending entry with its one slot.\<close>

lemma lost_turn:
  assumes only: "slots_of (objects s this) (fst it) = [X]"
  shows "\<exists>s1 es. emit_message this (lost it) s = Inr s1
           \<and> effects s1 = effects s @ es
           \<and> List.map_filter (completion this) es = [lost it]
           \<and> m_pending (objects s1 this) = qmap_remove (fst it) (m_pending (objects s this))
           \<and> (\<forall>k. k \<noteq> fst it \<longrightarrow> slots_of (objects s1 this) k = slots_of (objects s this) k)"
proof -
  from emit_message_request [OF only lost_fields(1)] obtain es1 where
    es1: "set es1 \<subseteq> set (classified this (lost it) s)"
    and r: "case run_slot X this (lost it) (emits es1 s) of
          Inl e \<Rightarrow> emit_message this (lost it) s = Inl e
        | Inr s1 \<Rightarrow> \<exists>es2. set es2 \<subseteq> set (classified this (lost it) s1)
                        \<and> emit_message this (lost it) s = Inr (emits es2 s1)"
    by blast
  from es1 have [simp]: "es1 = []" by simp
  have X: "slot_msgid X = Some (fst it)"
    using only by (auto simp add: slots_of_def filter_eq_Cons_iff)
  have failed: "qmap_value (lost it) ''hResult'' \<noteq> QString ''WFS_SUCCESS''"
    "toString (qmap_value (lost it) ''hResult'') \<noteq> ''WFS_SUCCESS''"
    by (simp_all add: toString_def)
  have rest: "slots_of (ob\<lparr>connections := removeAll X (connections ob)\<rparr>) k = slots_of ob k"
    if "k \<noteq> fst it" for ob k
    using that X by (simp add: slots_of_def filter_removeAll_other)
  show ?thesis
  proof (cases X)
    case Classify
    with X show ?thesis by simp
  next
    case (ExecuteSlot msgid dwCommand lpCmdData)
    with X have [simp]: "msgid = fst it" by simp
    from r ExecuteSlot execute_slot_failure [where msg = "lost it" and this = this and dwCommand = dwCommand
        and lpCmdData = lpCmdData and s = s, OF lost_fields(1) failed(1)]
    have e: "emit_message this (lost it) s =
        Inr (emits [ExecuteComplete this (lost it)]
              (disconnect this X (done_msgid this (fst it)
                 (broadcast this (lost it) dwCommand lpCmdData s))))"
      by simp
    show ?thesis
      unfolding e using rest
      by (intro exI conjI) (auto simp add: broadcast_def List.map_filter_def slots_of_def)
  next
    case (GetInfoSlot msgid category)
    with X have [simp]: "msgid = fst it" by simp
    from r GetInfoSlot getInfo_slot_failure [where msg = "lost it" and this = this and category = category
        and s = s, OF lost_fields(1) failed(2)]
    have e: "emit_message this (lost it) s =
        Inr (emits [Replied this (lost it)]
              (update_object this (\<lambda>ob. ob\<lparr>rv := lost it, loop_exited := True\<rparr>)
                (done_msgid this (fst it)
                  (emits [GetInfoWarning (name_of s this) category
                            (toString (qmap_value (lost it) ''hResult''))] s))))"
      by simp
    show ?thesis
      unfolding e
      by (intro exI conjI) (auto simp add: List.map_filter_def slots_of_def)
  next
    case (CancelSlot msgid)
    with X have [simp]: "msgid = fst it" by simp
    from r CancelSlot cancel_slot_reply [where msg = "lost it" and this = this and s = s, OF lost_fields(1)]
    have e: "emit_message this (lost it) s =
        Inr (emits [CancelComplete this (lost it)]
              (disconnect this X (done_msgid this (fst it) s)))"
      by simp
    show ?thesis
      unfolding e using rest
      by (intro exI conjI) (auto simp add: List.map_filter_def slots_of_def)
  qed
qed

lemma qmap_remove_head:
  assumes "distinct (map fst (it # its))"
  shows "qmap_remove (fst it) (it # its) = its"
  using distinct_fst_head [OF assms] by (simp add: qmap_remove_def filter_id_conv)

lemma disconnected_loop_all:
  assumes carrier: "msg = [(''hResult'', QString ''WFS_ERR_CONNECTION_LOST'')] \<or> (\<exists>it'. msg = lost it')"
  shows "m_pending (objects s this) = its \<Longrightarrow> wired (objects s this) \<Longrightarrow>
         \<exists>s' es. disconnected_loop its msg this s = Inr s'
           \<and> effects s' = effects s @ es
           \<and> List.map_filter (completion this) es = map lost its
           \<and> m_pending (objects s' this) = []"
  using carrier
proof (induction its arbitrary: s msg)
  case Nil
  then show ?case by (simp add: List.map_filter_def)
next
  case (Cons it its)
  from Cons.prems(3) have msg': "qmap_insert ''dwCommandCode'' (QString (snd it))
     (qmap_insert ''msgid'' (QString (fst it)) msg) = lost it"
    using lost_first lost_next by blast
  from Cons.prems(1,2) have dist: "distinct (map fst (it # its))"
    and slots: "\<forall>x\<in>set (it # its). length (slots_of (objects s this) (fst x)) = 1"
    by (simp_all add: wired_def)
  from slots obtain X where only: "slots_of (objects s this) (fst it) = [X]"
    by (cases "slots_of (objects s this) (fst it)") auto
  from lost_turn [OF only] obtain s1 es1 where
    e: "emit_message this (lost it) s = Inr s1"
    and eff: "effects s1 = effects s @ es1"
    and comp: "List.map_filter (completion this) es1 = [lost it]"
    and pend: "m_pending (objects s1 this) = qmap_remove (fst it) (m_pending (objects s this))"
    and others: "\<forall>k. k \<noteq> fst it \<longrightarrow> slots_of (objects s1 this) k = slots_of (objects s this) k"
    by blast
  from pend Cons.prems(1) dist have pend1: "m_pending (objects s1 this) = its"
    by (simp add: qmap_remove_head)
  have wired1: "wired (objects s1 this)"
    unfolding wired_def pend1
  proof (intro conjI ballI)
    from dist show "distinct (map fst its)" by simp
  next
    fix x assume x: "x \<in> set its"
    with dist have "fst x \<noteq> fst it" by (rule distinct_fst_head)
    with others slots x show "length (slots_of (objects s1 this) (fst x)) = 1" by simp
  qed
  have "\<exists>it'. lost it = lost it'" by blast
  then have "lost it = [(''hResult'', QString ''WFS_ERR_CONNECTION_LOST'')] \<or> (\<exists>it'. lost it = lost it')" ..
  from Cons.IH [OF pend1 wired1 this] obtain s' es where
    l: "disconnected_loop its (lost it) this s1 = Inr s'"
    and eff': "effects s' = effects s1 @ es"
    and comp': "List.map_filter (completion this) es = map lost its"
    and empty: "m_pending (objects s' this) = []"
    by blast
  have "disconnected_loop (it # its) msg this s = Inr s'"
    using e l msg' by (simp add: Let_def)
  moreover have "effects s' = effects s @ (es1 @ es)" using eff eff' by simp
  moreover have "List.map_filter (completion this) (es1 @ es) = map lost (it # its)"
    using comp comp' by (simp add: List.map_filter_def)
  ultimately show ?case using empty by blast
qed

lemma disconnected_loop_emit_all:
  "msg = [(''hResult'', QString ''WFS_ERR_CONNECTION_LOST'')] \<or> (\<exists>it'. msg = lost it') \<Longrightarrow>
   disconnected_loop its msg this s = emit_all (map lost its) this s"
proof (induction its arbitrary: s msg)
  case Nil
  then show ?case by simp
next
  case (Cons it its)
  from Cons.prems have msg': "qmap_insert ''dwCommandCode'' (QString (snd it))
     (qmap_insert ''msgid'' (QString (fst it)) msg) = lost it"
    using lost_first lost_next by blast
  have "\<exists>it'. lost it = lost it'" by blast
  then have "lost it = [(''hResult'', QString ''WFS_ERR_CONNECTION_LOST'')] \<or> (\<exists>it'. lost it = lost it')" ..
  from Cons.IH [OF this] show ?case
    by (simp add: msg' Let_def split: sum.splits)
qed

text \<open>
  C3.  On the socket's \<open>disconnected\<close>, with every pending request wired to its one slot:
  for each entry of the pending map as it is when the slot starts, in the order of the map,
  the message \<open>lost\<close> of the entry is emitted on \<open>message\<close> like a frame that was read;
  the dispatch is not aborted; the completions it delivers on the proxy (an
  \<open>executeComplete\<close>, a \<open>cancelComplete\<close>, or the reply that ends a \<open>getInfo\<close>) are, in
  the order of the pending map, exactly one per pending request, each the message with
  \<open>hResult = WFS_ERR_CONNECTION_LOST\<close>, the id of the request and its command code; and
  the pending map ends empty.
\<close>

theorem disconnect_fails_every_pending_request:
  assumes "wired (objects s this)"
  shows "disconnected this s = emit_all (map lost (m_pending (objects s this))) this s
         \<and> (\<exists>s' es. disconnected this s = Inr s'
           \<and> effects s' = effects s @ es
           \<and> List.map_filter (completion this) es = map lost (m_pending (objects s this))
           \<and> (\<forall>it \<in> set (m_pending (objects s this)).
                 filter (\<lambda>m. qmap_value m ''msgid'' = QString (fst it))
                   (List.map_filter (completion this) es) = [lost it])
           \<and> m_pending (objects s' this) = [])"
proof -
  have first: "[(''hResult'', QString ''WFS_ERR_CONNECTION_LOST'')]
          = [(''hResult'', QString ''WFS_ERR_CONNECTION_LOST'')] \<or>
        (\<exists>it'. [(''hResult'', QString ''WFS_ERR_CONNECTION_LOST'')] = lost it')"
    by simp
  have fed: "disconnected this s = emit_all (map lost (m_pending (objects s this))) this s"
    unfolding disconnected_def by (rule disconnected_loop_emit_all [OF first])
  from disconnected_loop_all [OF first refl assms] obtain s' es where
    d: "disconnected this s = Inr s'"
    and eff: "effects s' = effects s @ es"
    and comp: "List.map_filter (completion this) es = map lost (m_pending (objects s this))"
    and empty: "m_pending (objects s' this) = []"
    unfolding disconnected_def by blast
  have one: "filter (\<lambda>m. qmap_value m ''msgid'' = QString (fst it)) (map lost its) = [lost it]"
    if "distinct (map fst its)" "it \<in> set its" for it :: "string \<times> string" and its
    using that
  proof (induction its)
    case Nil
    then show ?case by simp
  next
    case (Cons a its)
    show ?case
    proof (cases "a = it")
      case True
      with Cons.prems(1) have "\<forall>x\<in>set its. fst x \<noteq> fst it"
        using distinct_fst_head [of it its] by blast
      then have "filter (\<lambda>m. qmap_value m ''msgid'' = QString (fst it)) (map lost its) = []"
        by (simp add: filter_empty_conv)
      with True show ?thesis by simp
    next
      case False
      with Cons.prems have mem: "it \<in> set its" by simp
      with Cons.prems(1) have "fst a \<noteq> fst it"
        using distinct_fst_head [of a its it] by simp
      with Cons mem show ?thesis by simp
    qed
  qed
  from assms have "distinct (map fst (m_pending (objects s this)))" by (simp add: wired_def)
  with one comp have "\<forall>it \<in> set (m_pending (objects s this)).
                 filter (\<lambda>m. qmap_value m ''msgid'' = QString (fst it))
                   (List.map_filter (completion this) es) = [lost it]"
    by simp
  with d eff comp empty fed show ?thesis by blast
qed

text \<open>The proxy at 10 has two requests pending, the cancel \<open>{c}\<close> and the execute
  \<open>{e}\<close>; both are failed, in the order of the map.\<close>

theorem disconnect_fails_every_pending_request_witness:
  "wired (objects crd1_cancelling 10)
   \<and> m_pending (objects crd1_cancelling 10) = [(''{c}'', []), (''{e}'', ''EJECT'')]
   \<and> (\<exists>s' es. disconnected 10 crd1_cancelling = Inr s'
          \<and> effects s' = effects crd1_cancelling @ es
          \<and> List.map_filter (completion 10) es = [lost (''{c}'', []), lost (''{e}'', ''EJECT'')]
          \<and> m_pending (objects s' 10) = [])"
proof -
  have w: "wired (objects crd1_cancelling 10)" by code_simp
  have p: "m_pending (objects crd1_cancelling 10) = [(''{c}'', []), (''{e}'', ''EJECT'')]"
    by code_simp
  from disconnect_fails_every_pending_request [OF w] obtain s' es where
    "disconnected 10 crd1_cancelling = Inr s'"
    "effects s' = effects crd1_cancelling @ es"
    "List.map_filter (completion 10) es = map lost (m_pending (objects crd1_cancelling 10))"
    "m_pending (objects s' 10) = []"
    by blast
  with p have "\<exists>s' es. disconnected 10 crd1_cancelling = Inr s'
          \<and> effects s' = effects crd1_cancelling @ es
          \<and> List.map_filter (completion 10) es = [lost (''{c}'', []), lost (''{e}'', ''EJECT'')]
          \<and> m_pending (objects s' 10) = []"
    by (intro exI [of _ s'] exI [of _ es]) simp
  with w p show ?thesis by blast
qed

section \<open>What a delivery leaves alone\<close>

lemma classified_not_written: "e \<in> set (classified this msg s) \<Longrightarrow> \<not> written e"
  by (auto simp add: classified_def classify_def Let_def split: if_splits)

lemma classify_frame:
  "classify this msg s = s' \<Longrightarrow>
   (\<exists>es. effects s' = effects s @ es \<and> (\<forall>e\<in>set es. \<not> written e))
   \<and> objects s' = objects s \<and> devices s' = devices s \<and> commands s' = commands s
   \<and> m_capabilities s' = m_capabilities s \<and> warnOnce s' = warnOnce s \<and> asserts s' = asserts s"
  using classified_not_written [of _ this msg s] by (auto simp add: classify_emits)

lemma execute_slot_frame:
  assumes "execute_slot this msgid dwCommand lpCmdData msg s = Inr s'"
  shows "(\<exists>es. effects s' = effects s @ es \<and> (\<forall>e\<in>set es. \<not> written e))
   \<and> devices s' = devices s \<and> m_capabilities s' = m_capabilities s
   \<and> warnOnce s' = warnOnce s \<and> asserts s' = asserts s
   \<and> (\<forall>a. objectName (objects s' a) = objectName (objects s a)
          \<and> m_io (objects s' a) = m_io (objects s a)
          \<and> rv (objects s' a) = rv (objects s a)
          \<and> loop_exited (objects s' a) = loop_exited (objects s a)
          \<and> set (connections (objects s' a)) \<subseteq> set (connections (objects s a)))"
proof (cases "qmap_value msg ''msgid'' = QString msgid")
  case False
  with assms show ?thesis by (simp add: execute_slot_other)
next
  case m: True
  show ?thesis
  proof (cases "qmap_value msg ''hResult'' = QString ''WFS_SUCCESS''")
    case False
    from assms execute_slot_failure [OF m False, of this dwCommand lpCmdData s]
    show ?thesis by (auto simp add: broadcast_def split: if_splits)
  next
    case ok: True
    show ?thesis
    proof (cases "qmap_contains msg ''message''")
      case False
      from assms execute_slot_ack [OF m ok False, of this dwCommand lpCmdData s]
      show ?thesis by (auto simp add: broadcast_def split: if_splits)
    next
      case True
      with assms m ok show ?thesis
        by (auto simp add: execute_slot_def Let_def broadcast_def split: if_splits)
    qed
  qed
qed

lemma cancel_slot_frame:
  assumes "cancel_slot this msgid msg s = Inr s'"
  shows "(\<exists>es. effects s' = effects s @ es \<and> (\<forall>e\<in>set es. \<not> written e))
   \<and> devices s' = devices s \<and> m_capabilities s' = m_capabilities s
   \<and> warnOnce s' = warnOnce s \<and> asserts s' = asserts s
   \<and> (\<forall>a. objectName (objects s' a) = objectName (objects s a)
          \<and> m_io (objects s' a) = m_io (objects s a)
          \<and> rv (objects s' a) = rv (objects s a)
          \<and> loop_exited (objects s' a) = loop_exited (objects s a)
          \<and> set (connections (objects s' a)) \<subseteq> set (connections (objects s a)))"
  using assms by (auto simp add: cancel_slot_def Let_def split: if_splits)

lemma getInfo_slot_frame:
  assumes "getInfo_slot this msgid category msg s = Inr s'"
  shows "(\<exists>es. effects s' = effects s @ es \<and> (\<forall>e\<in>set es. \<not> written e))
   \<and> devices s' = devices s \<and> m_capabilities s' = m_capabilities s
   \<and> warnOnce s' = warnOnce s \<and> asserts s' = asserts s
   \<and> (\<forall>a. objectName (objects s' a) = objectName (objects s a)
          \<and> m_io (objects s' a) = m_io (objects s a)
          \<and> set (connections (objects s' a)) \<subseteq> set (connections (objects s a)))"
  using assms by (auto simp add: getInfo_slot_def Let_def split: if_splits)

lemma kept_refl: "kept s s"
  by (simp add: kept_def)

lemma kept_trans: "kept s s1 \<Longrightarrow> kept s1 s2 \<Longrightarrow> kept s s2"
  unfolding kept_def by (elim conjE exE) (intro conjI; (force | simp))

lemma run_slot_kept: "run_slot c this msg s = Inr s' \<Longrightarrow> kept s s'"
proof (cases c)
  case Classify
  assume "run_slot c this msg s = Inr s'"
  with Classify have "classify this msg s = s'" by simp
  from classify_frame [OF this] show ?thesis by (simp add: kept_def)
next
  case (ExecuteSlot msgid dwCommand lpCmdData)
  assume "run_slot c this msg s = Inr s'"
  with ExecuteSlot have "execute_slot this msgid dwCommand lpCmdData msg s = Inr s'" by simp
  from execute_slot_frame [OF this] show ?thesis by (simp add: kept_def)
next
  case (GetInfoSlot msgid category)
  assume "run_slot c this msg s = Inr s'"
  with GetInfoSlot have "getInfo_slot this msgid category msg s = Inr s'" by simp
  from getInfo_slot_frame [OF this] show ?thesis by (simp add: kept_def)
next
  case (CancelSlot msgid)
  assume "run_slot c this msg s = Inr s'"
  with CancelSlot have "cancel_slot this msgid msg s = Inr s'" by simp
  from cancel_slot_frame [OF this] show ?thesis by (simp add: kept_def)
qed

lemma exec_kept:
  assumes "exec evs this s = Inr (s', r)"
  shows "kept s s'"
  apply (rule exec_invariant [of "kept s" this s evs s' r])
    apply (erule kept_trans)
    apply (erule run_slot_kept)
   apply (rule kept_refl)
  apply (rule assms)
  done

lemma deliver_kept:
  assumes "deliver ev this s = Inr s'"
  shows "kept s s'"
  apply (rule deliver_invariant [of "kept s" this s ev s'])
    apply (erule kept_trans)
    apply (erule run_slot_kept)
   apply (rule kept_refl)
  apply (rule assms)
  done

lemma syncCancel_exec_kept:
  assumes "syncCancel_exec evs this fr s = Inr (s', r)"
  shows "kept s s'"
  apply (rule syncCancel_exec_invariant [of "kept s" this s evs fr s' r])
    apply (erule kept_trans)
    apply (erule run_slot_kept)
   apply (rule kept_refl)
  apply (rule assms)
  done

section \<open>The capability cache\<close>

lemma connectToServer_connected:
  "connectToServer this pr s = Inr (s1, True) \<Longrightarrow> s1 = s"
  by (auto simp add: connectToServer_def conn_err_def Let_def split: option.splits if_splits)

lemma connectToServer_frame:
  "connectToServer this pr s = Inr (s1, ok) \<Longrightarrow>
   objects s1 = objects s \<and> devices s1 = devices s \<and> commands s1 = commands s
   \<and> m_capabilities s1 = m_capabilities s \<and> asserts s1 = asserts s"
  by (auto simp add: connectToServer_def conn_err_def Let_def split: option.splits if_splits)

lemma exec_exited:
  "exec evs this s = Inr (s', Some rest) \<Longrightarrow> loop_exited (objects s' this)"
  by (induction evs arbitrary: s) (auto split: sum.splits if_splits)

text \<open>A \<open>getInfo\<close> that returns either had nothing to wait for, or sent its request and
  waited in \<open>exec\<close>.\<close>

lemma getInfo_returned:
  assumes "getInfo this pr uuid category queryDetails evs s = Inr (s', Some (r, rest))"
  shows "(r = [] \<and> m_capabilities s' = m_capabilities s \<and> name_of s' this = name_of s this) \<or>
         (uuid \<noteq> [] \<and> connectToServer this pr s = Inr (s, True) \<and>
          (\<exists>s3. exec evs this
                  (connect this (GetInfoSlot uuid category)
                    (update_object this (\<lambda>ob. ob\<lparr>rv := [], loop_exited := False\<rparr>)
                      (update_object this
                        (\<lambda>ob. ob\<lparr>m_pending := qmap_insert uuid category (m_pending ob)\<rparr>)
                        (emits [Written this
                                  [(''dwCommand'', QString category),
                                   (''function'', QString ''WFSGetInfo''),
                                   (''lpCmdData'', queryDetails), (''msgid'', QString uuid)]]
                           s)))) = Inr (s3, Some rest)
                \<and> s' = disconnect this (GetInfoSlot uuid category) s3
                \<and> r = rv (objects s3 this)))"
proof (cases "connectToServer this pr s")
  case (Inl e)
  with assms show ?thesis by (simp add: getInfo_def send_def)
next
  case (Inr p)
  obtain s1 ok where p: "p = (s1, ok)" by (cases p)
  from Inr p have frame: "objects s1 = objects s" "m_capabilities s1 = m_capabilities s"
    using connectToServer_frame by blast+
  show ?thesis
  proof (cases ok)
    case False
    with assms Inr p frame show ?thesis by (auto simp add: getInfo_def send_def name_of_def)
  next
    case True
    with Inr p have "connectToServer this pr s = Inr (s1, True)" by simp
    then have s1: "s1 = s" by (rule connectToServer_connected)
    show ?thesis
    proof (cases "uuid = []")
      case True
      with assms Inr p \<open>ok\<close> frame show ?thesis
        by (auto simp add: getInfo_def send_def Let_def name_of_def)
    next
      case False
      with assms Inr p \<open>ok\<close> s1 show ?thesis
        by (auto simp add: getInfo_def send_def Let_def split: sum.splits option.splits)
    qed
  qed
qed

text \<open>
  C6.  \<open>capabilities()\<close> on a proxy whose device identity has no cached snapshot, the
  call returning a non-empty snapshot: during the call exactly one frame is written, the
  \<open>WFSGetInfo\<close> request for the capabilities category; a second call, whatever the socket
  and the backend then do, returns the same value at once and leaves the whole state as it
  is, so it writes nothing.
\<close>

theorem capabilities_queried_once:
  assumes first: "capabilities this pr uuid evs s = Inr (s1, Some (caps, rest))"
    and absent: "m_capabilities s (name_of s this) = []"
    and snapshot: "caps \<noteq> []"
  shows "filter written (drop (length (effects s)) (effects s1)) =
           [Written this
              [(''dwCommand'', QString (m_capabilitiesCategory (objects s this))),
               (''function'', QString ''WFSGetInfo''), (''lpCmdData'', Invalid),
               (''msgid'', QString uuid)]]
         \<and> capabilities this pr' uuid' evs' s1 = Inr (s1, Some (caps, evs'))"
proof -
  let ?cat = "m_capabilitiesCategory (objects s this)"
  from first absent obtain s0 where
    g: "getCapabilities this pr uuid evs s = Inr (s0, Some rest)"
    and s1: "s1 = s0" and caps: "caps = m_capabilities s0 (name_of s0 this)"
    by (auto simp add: capabilities_def Let_def split: sum.splits option.splits)
  from g obtain sg data where
    i: "getInfo this pr uuid ?cat Invalid evs s = Inr (sg, Some (data, rest))"
    and s0: "s0 = (if qmap_contains data ''lpBuffer''
                   then sg\<lparr>m_capabilities := (m_capabilities sg)
                          (name_of sg this := toMap (qmap_value data ''lpBuffer''))\<rparr>
                   else sg)"
    by (auto simp add: getCapabilities_def split: sum.splits option.splits if_splits)
  have cached: "m_capabilities s1 (name_of s1 this) = caps"
    using s1 caps by simp
  have second: "capabilities this pr' uuid' evs' s1 = Inr (s1, Some (caps, evs'))"
    using cached snapshot by (simp add: capabilities_def Let_def)
  from getInfo_returned [OF i] have
    "(data = [] \<and> m_capabilities sg = m_capabilities s \<and> name_of sg this = name_of s this)
     \<or> (\<exists>s3. exec evs this
                  (connect this (GetInfoSlot uuid ?cat)
                    (update_object this (\<lambda>ob. ob\<lparr>rv := [], loop_exited := False\<rparr>)
                      (update_object this
                        (\<lambda>ob. ob\<lparr>m_pending := qmap_insert uuid ?cat (m_pending ob)\<rparr>)
                        (emits [Written this
                                  [(''dwCommand'', QString ?cat),
                                   (''function'', QString ''WFSGetInfo''),
                                   (''lpCmdData'', Invalid), (''msgid'', QString uuid)]]
                           s)))) = Inr (s3, Some rest)
                \<and> sg = disconnect this (GetInfoSlot uuid ?cat) s3)"
    by blast
  then show ?thesis
  proof
    assume d: "data = [] \<and> m_capabilities sg = m_capabilities s \<and> name_of sg this = name_of s this"
    then have "\<not> qmap_contains data ''lpBuffer''" by (simp add: qmap_contains_def)
    with s0 have "s0 = sg" by simp
    moreover note d
    ultimately have "caps = []" using caps absent by simp
    with snapshot show ?thesis by simp
  next
    assume "\<exists>s3. exec evs this
                  (connect this (GetInfoSlot uuid ?cat)
                    (update_object this (\<lambda>ob. ob\<lparr>rv := [], loop_exited := False\<rparr>)
                      (update_object this
                        (\<lambda>ob. ob\<lparr>m_pending := qmap_insert uuid ?cat (m_pending ob)\<rparr>)
                        (emits [Written this
                                  [(''dwCommand'', QString ?cat),
                                   (''function'', QString ''WFSGetInfo''),
                                   (''lpCmdData'', Invalid), (''msgid'', QString uuid)]]
                           s)))) = Inr (s3, Some rest)
                \<and> sg = disconnect this (GetInfoSlot uuid ?cat) s3"
    then obtain s3 where
      x: "exec evs this
                  (connect this (GetInfoSlot uuid ?cat)
                    (update_object this (\<lambda>ob. ob\<lparr>rv := [], loop_exited := False\<rparr>)
                      (update_object this
                        (\<lambda>ob. ob\<lparr>m_pending := qmap_insert uuid ?cat (m_pending ob)\<rparr>)
                        (emits [Written this
                                  [(''dwCommand'', QString ?cat),
                                   (''function'', QString ''WFSGetInfo''),
                                   (''lpCmdData'', Invalid), (''msgid'', QString uuid)]]
                           s)))) = Inr (s3, Some rest)"
      and sg: "sg = disconnect this (GetInfoSlot uuid ?cat) s3"
      by blast
    from exec_kept [OF x] obtain es where
      "effects s3 = effects s @ Written this
                                  [(''dwCommand'', QString ?cat),
                                   (''function'', QString ''WFSGetInfo''),
                                   (''lpCmdData'', Invalid), (''msgid'', QString uuid)] # es"
      and "\<forall>e\<in>set es. \<not> written e"
      by (auto simp add: kept_def)
    moreover have "effects s1 = effects s3" using s1 s0 sg by simp
    ultimately have "filter written (drop (length (effects s)) (effects s1)) =
           [Written this
              [(''dwCommand'', QString ?cat),
               (''function'', QString ''WFSGetInfo''), (''lpCmdData'', Invalid),
               (''msgid'', QString uuid)]]"
      by (simp add: filter_empty_conv)
    with second show ?thesis by simp
  qed
qed

text \<open>The first call on \<open>CRD1\<close> is answered with a snapshot; the second is made with the
  server unreachable and nothing arriving.\<close>

theorem capabilities_queried_once_witness:
  "m_capabilities crd1 (name_of crd1 10) = []
   \<and> snd (projr (capabilities 10 online ''{g}'' [ReadyRead [caps_reply]] crd1))
        = Some ([(''fwType'', QString ''MOTOR'')], [])
   \<and> filter written
        (effects (fst (projr (capabilities 10 online ''{g}'' [ReadyRead [caps_reply]] crd1))))
        = [Written 10
             [(''dwCommand'', QString ''WFS_INF_CRD_CAPABILITIES''),
              (''function'', QString ''WFSGetInfo''), (''lpCmdData'', Invalid),
              (''msgid'', QString ''{g}'')]]
   \<and> capabilities 10 refused ''{h}'' []
        (fst (projr (capabilities 10 online ''{g}'' [ReadyRead [caps_reply]] crd1)))
        = Inr (fst (projr (capabilities 10 online ''{g}'' [ReadyRead [caps_reply]] crd1)),
               Some ([(''fwType'', QString ''MOTOR'')], []))"
proof -
  let ?call = "capabilities 10 online ''{g}'' [ReadyRead [caps_reply]] crd1"
  have absent: "m_capabilities crd1 (name_of crd1 10) = []" by code_simp
  have returned: "\<not> isl ?call" by code_simp
  have result: "snd (projr ?call) = Some ([(''fwType'', QString ''MOTOR'')], [])" by code_simp
  have "?call = Inr (fst (projr ?call), snd (projr ?call))"
    using returned by simp
  with result have first:
    "?call = Inr (fst (projr ?call), Some ([(''fwType'', QString ''MOTOR'')], []))"
    by simp
  have snapshot: "[(''fwType'', QString ''MOTOR'')] \<noteq> []" by simp
  have before: "effects crd1 = []" by code_simp
  have category: "m_capabilitiesCategory (objects crd1 10) = ''WFS_INF_CRD_CAPABILITIES''"
    by code_simp
  from capabilities_queried_once [OF first absent snapshot, of refused "''{h}''" "[]"]
    before category absent result
  show ?thesis by simp
qed

section \<open>A failed getInfo\<close>

subsection \<open>The other slots while a query waits\<close>

lemma bystander_returns:
  assumes "\<forall>k cat. c \<noteq> GetInfoSlot k cat" and "asserts x \<longrightarrow> asserted c m"
  shows "\<exists>x'. run_slot c this m x = Inr x'"
proof (cases c)
  case Classify
  then show ?thesis by simp
next
  case (ExecuteSlot msgid dwCommand lpCmdData)
  with assms(2) show ?thesis
    by (auto simp add: execute_slot_def Let_def)
next
  case (GetInfoSlot k cat)
  with assms(1) show ?thesis by simp
next
  case (CancelSlot msgid)
  then show ?thesis by (simp add: cancel_slot_def Let_def)
qed

lemma execute_slot_connections:
  assumes "execute_slot this msgid dwCommand lpCmdData msg s = Inr s'"
  shows "connections (objects s' this) = connections (objects s this)
         \<or> connections (objects s' this)
             = removeAll (ExecuteSlot msgid dwCommand lpCmdData) (connections (objects s this))"
proof (cases "qmap_value msg ''msgid'' = QString msgid")
  case False
  with assms show ?thesis by (simp add: execute_slot_other)
next
  case m: True
  show ?thesis
  proof (cases "qmap_value msg ''hResult'' = QString ''WFS_SUCCESS''")
    case False
    from assms execute_slot_failure [OF m False, of this dwCommand lpCmdData s]
    show ?thesis by auto
  next
    case ok: True
    show ?thesis
    proof (cases "qmap_contains msg ''message''")
      case False
      from assms execute_slot_ack [OF m ok False, of this dwCommand lpCmdData s]
      show ?thesis by (auto split: if_splits)
    next
      case True
      with assms m ok show ?thesis
        by (auto simp add: execute_slot_def Let_def split: if_splits)
    qed
  qed
qed

lemma bystander_frame:
  assumes c: "\<forall>k cat. c \<noteq> GetInfoSlot k cat" and r: "run_slot c this m x = Inr x'"
  shows "rv (objects x' this) = rv (objects x this)
         \<and> loop_exited (objects x' this) = loop_exited (objects x this)
         \<and> (connections (objects x' this) = connections (objects x this)
              \<or> connections (objects x' this) = removeAll c (connections (objects x this)))"
proof (cases c)
  case Classify
  with r have "objects x' = objects x" using classify_frame [of this m x x'] by simp
  then show ?thesis by simp
next
  case (ExecuteSlot msgid dwCommand lpCmdData)
  with r have e: "execute_slot this msgid dwCommand lpCmdData m x = Inr x'" by simp
  from execute_slot_frame [OF e] execute_slot_connections [OF e] ExecuteSlot
  show ?thesis by simp
next
  case (GetInfoSlot k cat)
  with c show ?thesis by simp
next
  case (CancelSlot msgid)
  with r show ?thesis by (auto simp add: cancel_slot_def Let_def split: if_splits)
qed

lemma waiting_step:
  assumes w: "waiting this G s x" and k: "kept x x'"
    and cs: "connections (objects x' this) = connections (objects x this)
              \<or> connections (objects x' this) = removeAll c (connections (objects x this))"
    and ne: "c \<noteq> G"
  shows "waiting this G s x'"
proof -
  from w obtain cs0 where f: "connections (objects x this) = cs0 @ [G]"
    and sub: "set cs0 \<subseteq> set (connections (objects s this))"
    and a: "asserts x = asserts s" and n: "name_of x this = name_of s this"
    by (auto simp add: waiting_def)
  from k have a': "asserts x' = asserts x" and n': "name_of x' this = name_of x this"
    by (simp_all add: kept_def name_of_def)
  from cs f ne have "connections (objects x' this) = cs0 @ [G]
       \<or> connections (objects x' this) = removeAll c cs0 @ [G]"
    by auto
  then have "\<exists>cs. connections (objects x' this) = cs @ [G]
                \<and> set cs \<subseteq> set (connections (objects s this))"
  proof
    assume "connections (objects x' this) = cs0 @ [G]"
    with sub show ?thesis by blast
  next
    assume "connections (objects x' this) = removeAll c cs0 @ [G]"
    moreover have "set (removeAll c cs0) \<subseteq> set (connections (objects s this))"
      using sub by auto
    ultimately show ?thesis by blast
  qed
  with a a' n n' show ?thesis by (simp add: waiting_def)
qed

lemma kept_effects: "kept x x' \<Longrightarrow> \<exists>es. effects x' = effects x @ es"
  by (auto simp add: kept_def)

text \<open>The slots that were connected before the query, activated on a message whose
  assertions hold: each returns, and none of them touches \<open>rv\<close>, the loop or the slot of
  the query.\<close>

lemma activate_bystanders:
  assumes idle: "\<forall>c\<in>set (connections (objects s this)). \<forall>k cat. c \<noteq> GetInfoSlot k cat"
    and ok: "asserts s \<longrightarrow> (\<forall>c\<in>set (connections (objects s this)). asserted c m)"
    and G: "G = GetInfoSlot uuid category"
  shows "set ds \<subseteq> set (connections (objects s this)) \<Longrightarrow> waiting this G s x \<Longrightarrow>
         \<exists>x'. activate ds this m x = Inr x' \<and> waiting this G s x' \<and> kept x x'
            \<and> rv (objects x' this) = rv (objects x this)
            \<and> loop_exited (objects x' this) = loop_exited (objects x this)"
proof (induction ds arbitrary: x)
  case Nil
  then show ?case by (simp add: kept_refl)
next
  case (Cons c ds)
  from Cons.prems(1) have cin: "c \<in> set (connections (objects s this))"
    and sub: "set ds \<subseteq> set (connections (objects s this))"
    by simp_all
  from cin idle have bys: "\<forall>k cat. c \<noteq> GetInfoSlot k cat" by blast
  with G have ne: "c \<noteq> G" by simp
  show ?case
  proof (cases "c \<in> set (connections (objects x this))")
    case False
    with Cons.IH [OF sub Cons.prems(2)] show ?thesis by simp
  next
    case True
    from Cons.prems(2) have "asserts x = asserts s" by (simp add: waiting_def)
    with ok cin have "asserts x \<longrightarrow> asserted c m" by simp
    from bystander_returns [OF bys this] obtain x1 where r: "run_slot c this m x = Inr x1"
      by blast
    from run_slot_kept [OF r] have k1: "kept x x1" .
    from bystander_frame [OF bys r] have f1: "rv (objects x1 this) = rv (objects x this)"
      "loop_exited (objects x1 this) = loop_exited (objects x this)"
      and c1: "connections (objects x1 this) = connections (objects x this)
              \<or> connections (objects x1 this) = removeAll c (connections (objects x this))"
      by simp_all
    from waiting_step [OF Cons.prems(2) k1 c1 ne] have w1: "waiting this G s x1" .
    from Cons.IH [OF sub w1] obtain x' where
      a: "activate ds this m x1 = Inr x'" and w': "waiting this G s x'" and k': "kept x1 x'"
      and f': "rv (objects x' this) = rv (objects x1 this)"
        "loop_exited (objects x' this) = loop_exited (objects x1 this)"
      by blast
    from True r a have "activate (c # ds) this m x = Inr x'" by simp
    with w' kept_trans [OF k1 k'] f1 f' show ?thesis by simp
  qed
qed

text \<open>A message for another id passes the waiting query by.\<close>

lemma emit_message_bystanders:
  assumes idle: "\<forall>c\<in>set (connections (objects s this)). \<forall>k cat. c \<noteq> GetInfoSlot k cat"
    and ok: "asserts s \<longrightarrow> (\<forall>c\<in>set (connections (objects s this)). asserted c m)"
    and other: "qmap_value m ''msgid'' \<noteq> QString uuid"
    and w: "waiting this (GetInfoSlot uuid category) s x"
  shows "\<exists>x'. emit_message this m x = Inr x' \<and> waiting this (GetInfoSlot uuid category) s x'
            \<and> kept x x'
            \<and> rv (objects x' this) = rv (objects x this)
            \<and> loop_exited (objects x' this) = loop_exited (objects x this)"
proof -
  let ?G = "GetInfoSlot uuid category"
  from w obtain cs where f: "connections (objects x this) = cs @ [?G]"
    and sub: "set cs \<subseteq> set (connections (objects s this))"
    by (auto simp add: waiting_def)
  from activate_bystanders [OF idle ok refl sub w] obtain x1 where
    a: "activate cs this m x = Inr x1" and w1: "waiting this ?G s x1" and k1: "kept x x1"
    and f1: "rv (objects x1 this) = rv (objects x this)"
      "loop_exited (objects x1 this) = loop_exited (objects x this)"
    by blast
  from w1 have "?G \<in> set (connections (objects x1 this))" by (auto simp add: waiting_def)
  with other have "activate [?G] this m x1 = Inr x1" by (simp add: getInfo_slot_other)
  with a f have "emit_message this m x = Inr x1"
    by (simp add: emit_message_def activate_append)
  with w1 k1 f1 show ?thesis by simp
qed

lemma emit_all_bystanders:
  assumes idle: "\<forall>c\<in>set (connections (objects s this)). \<forall>k cat. c \<noteq> GetInfoSlot k cat"
  shows "asserts s \<longrightarrow> (\<forall>m\<in>set ms. \<forall>c\<in>set (connections (objects s this)). asserted c m) \<Longrightarrow>
         \<forall>m\<in>set ms. qmap_value m ''msgid'' \<noteq> QString uuid \<Longrightarrow>
         waiting this (GetInfoSlot uuid category) s x \<Longrightarrow>
         \<exists>x'. emit_all ms this x = Inr x' \<and> waiting this (GetInfoSlot uuid category) s x'
            \<and> kept x x'
            \<and> rv (objects x' this) = rv (objects x this)
            \<and> loop_exited (objects x' this) = loop_exited (objects x this)"
proof (induction ms arbitrary: x)
  case Nil
  then show ?case by (simp add: kept_refl)
next
  case (Cons m ms)
  from Cons.prems(1) have ok: "asserts s \<longrightarrow> (\<forall>c\<in>set (connections (objects s this)). asserted c m)"
    and oks: "asserts s \<longrightarrow> (\<forall>m\<in>set ms. \<forall>c\<in>set (connections (objects s this)). asserted c m)"
    by simp_all
  from Cons.prems(2) have other: "qmap_value m ''msgid'' \<noteq> QString uuid"
    and others: "\<forall>m\<in>set ms. qmap_value m ''msgid'' \<noteq> QString uuid"
    by simp_all
  from emit_message_bystanders [OF idle ok other Cons.prems(3)] obtain x1 where
    e: "emit_message this m x = Inr x1" and w1: "waiting this (GetInfoSlot uuid category) s x1"
    and k1: "kept x x1"
    and f1: "rv (objects x1 this) = rv (objects x this)"
      "loop_exited (objects x1 this) = loop_exited (objects x this)"
    by blast
  from Cons.IH [OF oks others w1] obtain x' where
    a: "emit_all ms this x1 = Inr x'" and w': "waiting this (GetInfoSlot uuid category) s x'"
    and k': "kept x1 x'"
    and f': "rv (objects x' this) = rv (objects x1 this)"
      "loop_exited (objects x' this) = loop_exited (objects x1 this)"
    by blast
  from e a have "emit_all (m # ms) this x = Inr x'" by simp
  with w' kept_trans [OF k1 k'] f1 f' show ?case by simp
qed

lemma emit_all_append:
  "emit_all (us @ vs) this s =
     (case emit_all us this s of Inl e \<Rightarrow> Inl e | Inr s' \<Rightarrow> emit_all vs this s')"
  by (induction us arbitrary: s) (auto split: sum.splits)

text \<open>Reads that bring nothing for the query leave it waiting.\<close>

lemma exec_bystanders:
  assumes idle: "\<forall>c\<in>set (connections (objects s this)). \<forall>k cat. c \<noteq> GetInfoSlot k cat"
  shows "asserts s \<longrightarrow>
           (\<forall>m\<in>set (concat pre). \<forall>c\<in>set (connections (objects s this)). asserted c m) \<Longrightarrow>
         \<forall>m\<in>set (concat pre). qmap_value m ''msgid'' \<noteq> QString uuid \<Longrightarrow>
         waiting this (GetInfoSlot uuid category) s x \<Longrightarrow>
         \<not> loop_exited (objects x this) \<Longrightarrow>
         \<exists>x'. exec (map ReadyRead pre @ evs) this x = exec evs this x'
            \<and> waiting this (GetInfoSlot uuid category) s x' \<and> kept x x'
            \<and> \<not> loop_exited (objects x' this)"
proof (induction pre arbitrary: x)
  case Nil
  then show ?case by (auto simp add: kept_refl)
next
  case (Cons ms pre)
  from Cons.prems(1) have
    ok: "asserts s \<longrightarrow> (\<forall>m\<in>set ms. \<forall>c\<in>set (connections (objects s this)). asserted c m)"
    and oks: "asserts s \<longrightarrow>
           (\<forall>m\<in>set (concat pre). \<forall>c\<in>set (connections (objects s this)). asserted c m)"
    by simp_all
  from Cons.prems(2) have other: "\<forall>m\<in>set ms. qmap_value m ''msgid'' \<noteq> QString uuid"
    and others: "\<forall>m\<in>set (concat pre). qmap_value m ''msgid'' \<noteq> QString uuid"
    by simp_all
  from emit_all_bystanders [OF idle ok other Cons.prems(3)] obtain x1 where
    e: "emit_all ms this x = Inr x1" and w1: "waiting this (GetInfoSlot uuid category) s x1"
    and k1: "kept x x1"
    and l1: "loop_exited (objects x1 this) = loop_exited (objects x this)"
    by blast
  from l1 Cons.prems(4) have n1: "\<not> loop_exited (objects x1 this)" by simp
  from Cons.IH [OF oks others w1 n1] obtain x' where
    a: "exec (map ReadyRead pre @ evs) this x1 = exec evs this x'"
    and w': "waiting this (GetInfoSlot uuid category) s x'" and k': "kept x1 x'"
    and n': "\<not> loop_exited (objects x' this)"
    by blast
  from e n1 a have "exec (map ReadyRead (ms # pre) @ evs) this x = exec evs this x'" by simp
  with w' kept_trans [OF k1 k'] n' show ?case by blast
qed

text \<open>The failure reply: the slots connected before the query let it pass (a failure
  frame reaches no assertion), the slot of the query logs it, stores it and leaves the
  loop.\<close>

lemma emit_message_failure:
  assumes idle: "\<forall>c\<in>set (connections (objects s this)). \<forall>k cat. c \<noteq> GetInfoSlot k cat"
    and m: "qmap_value reply ''msgid'' = QString uuid"
    and f: "toString (qmap_value reply ''hResult'') \<noteq> ''WFS_SUCCESS''"
    and w: "waiting this (GetInfoSlot uuid category) s x"
  shows "\<exists>x'. emit_message this reply x = Inr x'
            \<and> waiting this (GetInfoSlot uuid category) s x' \<and> kept x x'
            \<and> rv (objects x' this) = qmap_index reply ''hResult''
            \<and> loop_exited (objects x' this)
            \<and> GetInfoWarning (name_of s this) category (toString (qmap_value reply ''hResult''))
                 \<in> set (drop (length (effects x)) (effects x'))
            \<and> Replied this (qmap_index reply ''hResult'')
                 \<in> set (drop (length (effects x)) (effects x'))"
proof -
  let ?G = "GetInfoSlot uuid category"
  from f have nok: "qmap_value reply ''hResult'' \<noteq> QString ''WFS_SUCCESS''"
    by (auto simp add: toString_def)
  have ok: "asserts s \<longrightarrow> (\<forall>c\<in>set (connections (objects s this)). asserted c reply)"
  proof (intro impI ballI)
    fix c assume "c \<in> set (connections (objects s this))"
    with idle have "\<forall>k cat. c \<noteq> GetInfoSlot k cat" by blast
    with nok show "asserted c reply" by (cases c) simp_all
  qed
  from w obtain cs where c: "connections (objects x this) = cs @ [?G]"
    and sub: "set cs \<subseteq> set (connections (objects s this))"
    by (auto simp add: waiting_def)
  from activate_bystanders [OF idle ok refl sub w] obtain x1 where
    a: "activate cs this reply x = Inr x1" and w1: "waiting this ?G s x1" and k1: "kept x x1"
    by blast
  from w1 have in1: "?G \<in> set (connections (objects x1 this))"
    and n1: "name_of x1 this = name_of s this"
    by (auto simp add: waiting_def)
  define x' where "x' = emits [Replied this (qmap_index reply ''hResult'')]
           (update_object this
              (\<lambda>ob. ob\<lparr>rv := qmap_index reply ''hResult'', loop_exited := True\<rparr>)
              (done_msgid this uuid
                (emits [GetInfoWarning (name_of x1 this) category
                          (toString (qmap_value reply ''hResult''))] x1)))"
  from getInfo_slot_failure [OF m f, of this category x1]
  have g: "run_slot ?G this reply x1 = Inr x'" by (simp add: x'_def)
  with in1 have "activate [?G] this reply x1 = Inr x'" by simp
  with a c have e: "emit_message this reply x = Inr x'"
    by (simp add: emit_message_def activate_append)
  from run_slot_kept [OF g] have k': "kept x1 x'" .
  have cx: "connections (objects x' this) = connections (objects x1 this)"
    by (simp add: x'_def)
  have w': "waiting this ?G s x'"
    by (rule waiting_step [OF w1 k' disjI1 [OF cx], of Classify]) simp
  from kept_effects [OF k1] obtain es where es: "effects x1 = effects x @ es" by blast
  have eff: "effects x' = effects x @ es @
               [GetInfoWarning (name_of s this) category (toString (qmap_value reply ''hResult'')),
                Replied this (qmap_index reply ''hResult'')]"
    by (simp add: x'_def es n1)
  have "rv (objects x' this) = qmap_index reply ''hResult''" "loop_exited (objects x' this)"
    by (simp_all add: x'_def)
  with e w' kept_trans [OF k1 k'] eff show ?thesis by simp
qed

lemma drop_effects_mono:
  "e \<in> set (drop n (effects x)) \<Longrightarrow> kept x x' \<Longrightarrow> e \<in> set (drop n (effects x'))"
  by (auto simp add: kept_def)

lemma drop_effects_later:
  "e \<in> set (drop (length (effects x)) (effects x')) \<Longrightarrow> kept s x \<Longrightarrow>
   e \<in> set (drop (length (effects s)) (effects x'))"
proof -
  assume e: "e \<in> set (drop (length (effects x)) (effects x'))" and k: "kept s x"
  from k have "length (effects s) \<le> length (effects x)" by (auto simp add: kept_def)
  then have "set (drop (length (effects x)) (effects x'))
               \<subseteq> set (drop (length (effects s)) (effects x'))"
    by (rule set_drop_subset_set_drop)
  with e show ?thesis by blast
qed

text \<open>
  C4, as amended.  A \<open>getInfo\<close> whose request is sent, made while no other query of the
  proxy is waiting.  The reads \<open>pre\<close> bring no frame for the id of the request; the next
  read brings the frames \<open>ahead\<close>, the reply, and the frames \<open>behind\<close>, of which only the
  reply carries the id; the reply's \<open>hResult\<close> is not the success value.  Where assertions
  are compiled in, the other frames pass those of the slots connected before the call.
  Then the call returns with that read, the events \<open>rest\<close> left for later: it returns the
  reply itself (with an \<open>hResult\<close> entry, had it none), which is not empty and carries
  the id, and it has logged the failure with the object name, the category and the
  \<open>hResult\<close> of the reply.  No error is signalled, and the proxy is left with no query
  waiting.
\<close>

theorem getInfo_returns_failed_reply:
  assumes sent: "connectToServer this pr s = Inr (s, True)" "uuid \<noteq> []"
    and idle: "\<forall>c\<in>set (connections (objects s this)). \<forall>k cat. c \<noteq> GetInfoSlot k cat"
    and others: "\<forall>m\<in>set (concat pre @ ahead @ behind). qmap_value m ''msgid'' \<noteq> QString uuid"
    and echo: "asserts s \<longrightarrow>
                 (\<forall>m\<in>set (concat pre @ ahead @ behind).
                    \<forall>c\<in>set (connections (objects s this)). asserted c m)"
    and reply: "qmap_value reply ''msgid'' = QString uuid"
    and failure: "toString (qmap_value reply ''hResult'') \<noteq> ''WFS_SUCCESS''"
  shows "\<exists>s'. getInfo this pr uuid category queryDetails
                (map ReadyRead pre @ ReadyRead (ahead @ reply # behind) # rest) s
               = Inr (s', Some (qmap_index reply ''hResult'', rest))
            \<and> qmap_index reply ''hResult'' \<noteq> []
            \<and> qmap_value (qmap_index reply ''hResult'') ''msgid'' = QString uuid
            \<and> (qmap_contains reply ''hResult'' \<longrightarrow> qmap_index reply ''hResult'' = reply)
            \<and> GetInfoWarning (name_of s this) category (toString (qmap_value reply ''hResult''))
                 \<in> set (drop (length (effects s)) (effects s'))
            \<and> (\<forall>c\<in>set (connections (objects s' this)). \<forall>k cat. c \<noteq> GetInfoSlot k cat)"
proof -
  let ?G = "GetInfoSlot uuid category"
  let ?r = "qmap_index reply ''hResult''"
  let ?w = "GetInfoWarning (name_of s this) category (toString (qmap_value reply ''hResult''))"
  let ?read = "ReadyRead (ahead @ reply # behind)"
  define s2 where "s2 = connect this ?G
                    (update_object this (\<lambda>ob. ob\<lparr>rv := [], loop_exited := False\<rparr>)
                      (update_object this
                        (\<lambda>ob. ob\<lparr>m_pending := qmap_insert uuid category (m_pending ob)\<rparr>)
                        (emits [Written this
                                  [(''dwCommand'', QString category),
                                   (''function'', QString ''WFSGetInfo''),
                                   (''lpCmdData'', queryDetails), (''msgid'', QString uuid)]]
                           s)))"
  have call: "getInfo this pr uuid category queryDetails evs s =
                (case exec evs this s2 of
                   Inl e \<Rightarrow> Inl e
                 | Inr (s3, None) \<Rightarrow> Inr (s3, None)
                 | Inr (s3, Some rest) \<Rightarrow>
                     Inr (disconnect this ?G s3, Some (rv (objects s3 this), rest)))" for evs
    using sent by (simp add: getInfo_def send_def Let_def s2_def)
  have w2: "waiting this ?G s s2"
    by (auto simp add: waiting_def s2_def name_of_def)
  have n2: "\<not> loop_exited (objects s2 this)" by (simp add: s2_def)
  have l2: "length (effects s) \<le> length (effects s2)" by (simp add: s2_def)
  from others have o_pre: "\<forall>m\<in>set (concat pre). qmap_value m ''msgid'' \<noteq> QString uuid"
    and o_ahead: "\<forall>m\<in>set ahead. qmap_value m ''msgid'' \<noteq> QString uuid"
    and o_behind: "\<forall>m\<in>set behind. qmap_value m ''msgid'' \<noteq> QString uuid"
    by simp_all
  from echo have
    e_pre: "asserts s \<longrightarrow>
              (\<forall>m\<in>set (concat pre). \<forall>c\<in>set (connections (objects s this)). asserted c m)"
    and e_ahead: "asserts s \<longrightarrow>
              (\<forall>m\<in>set ahead. \<forall>c\<in>set (connections (objects s this)). asserted c m)"
    and e_behind: "asserts s \<longrightarrow>
              (\<forall>m\<in>set behind. \<forall>c\<in>set (connections (objects s this)). asserted c m)"
    by simp_all
  from exec_bystanders [OF idle e_pre o_pre w2 n2, of "?read # rest"] obtain x1 where
    x1: "exec (map ReadyRead pre @ ?read # rest) this s2 = exec (?read # rest) this x1"
    and w1: "waiting this ?G s x1" and k1: "kept s2 x1"
    by blast
  from emit_all_bystanders [OF idle e_ahead o_ahead w1] obtain x2 where
    x2: "emit_all ahead this x1 = Inr x2" and wx2: "waiting this ?G s x2" and k2: "kept x1 x2"
    by blast
  from emit_message_failure [OF idle reply failure wx2] obtain x3 where
    x3: "emit_message this reply x2 = Inr x3" and w3: "waiting this ?G s x3"
    and r3: "rv (objects x3 this) = ?r" and l3: "loop_exited (objects x3 this)"
    and g3: "?w \<in> set (drop (length (effects x2)) (effects x3))"
    by blast
  from emit_all_bystanders [OF idle e_behind o_behind w3] obtain x4 where
    x4: "emit_all behind this x3 = Inr x4" and w4: "waiting this ?G s x4" and k4: "kept x3 x4"
    and r4: "rv (objects x4 this) = rv (objects x3 this)"
    and l4: "loop_exited (objects x4 this) = loop_exited (objects x3 this)"
    by blast
  from x2 x3 x4 have "deliver ?read this x1 = Inr x4" by (simp add: emit_all_append)
  with l3 l4 have "exec (?read # rest) this x1 = Inr (x4, Some rest)" by simp
  with x1 have "exec (map ReadyRead pre @ ?read # rest) this s2 = Inr (x4, Some rest)" by simp
  with r3 r4 have 1: "getInfo this pr uuid category queryDetails
                        (map ReadyRead pre @ ?read # rest) s
                      = Inr (disconnect this ?G x4, Some (?r, rest))"
    by (simp add: call)
  from kept_trans [OF k1 k2] have "length (effects s2) \<le> length (effects x2)"
    by (auto simp add: kept_def)
  with l2 have "length (effects s) \<le> length (effects x2)" by simp
  then have "set (drop (length (effects x2)) (effects x3))
               \<subseteq> set (drop (length (effects s)) (effects x3))"
    by (rule set_drop_subset_set_drop)
  with g3 have "?w \<in> set (drop (length (effects s)) (effects x3))" by blast
  from drop_effects_mono [OF this k4]
  have 2: "?w \<in> set (drop (length (effects s)) (effects (disconnect this ?G x4)))" by simp
  from reply have 3: "qmap_value ?r ''msgid'' = QString uuid" by simp
  then have 4: "?r \<noteq> []" by (auto simp add: qmap_value_def)
  have 5: "qmap_contains reply ''hResult'' \<longrightarrow> ?r = reply" by (simp add: qmap_index_def)
  from w4 obtain cs where "connections (objects x4 this) = cs @ [?G]"
    and "set cs \<subseteq> set (connections (objects s this))"
    by (auto simp add: waiting_def)
  with idle have 6: "\<forall>c\<in>set (connections (objects (disconnect this ?G x4) this)).
                       \<forall>k cat. c \<noteq> GetInfoSlot k cat"
    by auto
  from 1 2 3 4 5 6 show ?thesis by blast
qed

text \<open>The status query of \<open>CRD1\<close>, made while an \<open>EJECT\<close> is pending.  A service event
  is read first; the next read brings the acknowledgement of the \<open>EJECT\<close>, the reply
  \<open>WFS_ERR_TIMEOUT\<close> to the query and an event of the \<open>EJECT\<close>; a third read is left
  for later.\<close>

theorem getInfo_returns_failed_reply_witness:
  "\<exists>s'. getInfo 10 online ''{g}'' ''WFS_INF_CRD_STATUS'' Invalid
           [ReadyRead [service_event], ReadyRead [eject_ack, info_failed, eject_event],
            ReadyRead [service_event]] crd1_eject
          = Inr (s', Some (info_failed, [ReadyRead [service_event]]))
       \<and> info_failed \<noteq> []
       \<and> GetInfoWarning ''CRD1'' ''WFS_INF_CRD_STATUS'' ''WFS_ERR_TIMEOUT''
            \<in> set (drop (length (effects crd1_eject)) (effects s'))"
proof -
  have "\<not> isl (connectToServer 10 online crd1_eject)"
    "snd (projr (connectToServer 10 online crd1_eject))"
    by code_simp+
  then have "connectToServer 10 online crd1_eject
               = Inr (fst (projr (connectToServer 10 online crd1_eject)), True)"
    by (metis prod.collapse sum.collapse(2))
  from this connectToServer_connected [OF this]
  have sent: "connectToServer 10 online crd1_eject = Inr (crd1_eject, True)" by simp
  have uuid: "''{g}'' \<noteq> []" by simp
  have cs: "connections (objects crd1_eject 10) = [Classify, ExecuteSlot ''{e}'' ''EJECT'' Invalid]"
    by code_simp
  then have idle: "\<forall>c\<in>set (connections (objects crd1_eject 10)). \<forall>k cat. c \<noteq> GetInfoSlot k cat"
    by simp
  have others: "\<forall>m\<in>set (concat [[service_event]] @ [eject_ack] @ [eject_event]).
                  qmap_value m ''msgid'' \<noteq> QString ''{g}''"
    by code_simp
  have "\<forall>m\<in>set (concat [[service_event]] @ [eject_ack] @ [eject_event]).
          \<forall>c\<in>set [Classify, ExecuteSlot ''{e}'' ''EJECT'' Invalid]. asserted c m"
    by code_simp
  with cs have echo: "asserts crd1_eject \<longrightarrow>
                 (\<forall>m\<in>set (concat [[service_event]] @ [eject_ack] @ [eject_event]).
                    \<forall>c\<in>set (connections (objects crd1_eject 10)). asserted c m)"
    by simp
  have reply: "qmap_value info_failed ''msgid'' = QString ''{g}''" by code_simp
  have failure: "toString (qmap_value info_failed ''hResult'') \<noteq> ''WFS_SUCCESS''" by code_simp
  have cause: "toString (qmap_value info_failed ''hResult'') = ''WFS_ERR_TIMEOUT''" by code_simp
  have same: "qmap_index info_failed ''hResult'' = info_failed" by code_simp
  have name: "name_of crd1_eject 10 = ''CRD1''" by code_simp
  from getInfo_returns_failed_reply [OF sent uuid idle others echo reply failure,
      of "''WFS_INF_CRD_STATUS''" Invalid "[ReadyRead [service_event]]"]
  show ?thesis unfolding cause same name by simp blast
qed

text \<open>
  C4 as stated fails: the reply to the status query of \<open>CRD1\<close> carries a failure
  \<open>hResult\<close>, and \<open>getInfo\<close> returns that reply, not an empty map (\<open>rv = msg\<close> follows
  both branches of the slot).
\<close>

theorem getInfo_failure_counterexample:
  "qmap_value info_failed ''msgid'' = QString ''{g}''
   \<and> toString (qmap_value info_failed ''hResult'') \<noteq> ''WFS_SUCCESS''
   \<and> (case getInfo 10 online ''{g}'' ''WFS_INF_CRD_STATUS'' Invalid [ReadyRead [info_failed]] crd1 of
         Inl e \<Rightarrow> False
       | Inr (s', None) \<Rightarrow> False
       | Inr (s', Some (r, rest)) \<Rightarrow> r = info_failed \<and> r \<noteq> [])"
  by code_simp

section \<open>The synchronous cancel\<close>



subsection \<open>The frame follows what is observed\<close>

lemma signalled_ids [simp]:
  "sc_msgid (signalled this fr e) = sc_msgid fr"
  "sc_reqMsgId (signalled this fr e) = sc_reqMsgId fr"
  by (cases e; simp add: syncCancel_c1_def syncCancel_c2_def)+

lemma exited_fold:
  "exited (foldl (signalled this) fr obs) \<longleftrightarrow>
     exited fr
     \<or> (c1 fr \<and> (\<exists>m ms. List.map_filter (cancel_reply this (sc_msgid fr)) obs = m # ms
                    \<and> (finish fr \<or> qmap_value m ''hResult'' \<noteq> QString ''WFS_SUCCESS'')))
     \<or> (c2 fr \<and> List.map_filter (execute_reply this (sc_reqMsgId fr)) obs \<noteq> [] \<and> finish fr)
     \<or> (c1 fr \<and> List.map_filter (cancel_reply this (sc_msgid fr)) obs \<noteq> []
         \<and> c2 fr \<and> List.map_filter (execute_reply this (sc_reqMsgId fr)) obs \<noteq> [])"
proof (induction obs arbitrary: fr)
  case Nil
  show ?case by (simp add: List.map_filter_def)
next
  case (Cons e obs)
  have mf: "List.map_filter f (e # obs) =
            (case f e of None \<Rightarrow> List.map_filter f obs | Some m \<Rightarrow> m # List.map_filter f obs)"
    for f :: "effect \<Rightarrow> qvariantmap option"
    by (simp add: List.map_filter_def split: option.splits)
  show ?case
    unfolding foldl_Cons Cons.IH mf
    by (cases e)
      (auto simp add: syncCancel_c1_def syncCancel_c2_def neq_Nil_conv)
qed

subsection \<open>The wait\<close>

lemma syncCancel_exec_observed:
  assumes "syncCancel_exec evs this fr s = Inr (s', r)" and "\<not> exited fr"
  shows "(r = None) = (\<not> exited (foldl (signalled this) fr (drop (length (effects s)) (effects s'))))"
  using assms
proof (induction evs arbitrary: fr s)
  case Nil
  then show ?case by simp
next
  case (Cons ev evs)
  from Cons.prems(1) obtain s1 where d: "deliver ev this s = Inr s1"
    by (auto split: sum.splits)
  from deliver_kept [OF d] obtain es1 where es1: "effects s1 = effects s @ es1"
    by (auto simp add: kept_def)
  define fr1 where "fr1 = foldl (signalled this) fr es1"
  show ?case
  proof (cases "exited fr1")
    case True
    with Cons.prems(1) d es1 have "s' = s1" "r = Some evs"
      by (simp_all add: fr1_def Let_def)
    with True es1 show ?thesis by (simp add: fr1_def)
  next
    case False
    with Cons.prems(1) d es1 have x: "syncCancel_exec evs this fr1 s1 = Inr (s', r)"
      by (simp add: fr1_def Let_def)
    from syncCancel_exec_kept [OF x] obtain es where es: "effects s' = effects s1 @ es"
      by (auto simp add: kept_def)
    from Cons.IH [OF x False] es es1 show ?thesis by (simp add: fr1_def)
  qed
qed

lemma syncCancel_exec_resumes:
  assumes "syncCancel_exec pre this fr s = Inr (sp, None)"
  shows "syncCancel_exec (pre @ evs) this fr s =
           syncCancel_exec evs this
             (foldl (signalled this) fr (drop (length (effects s)) (effects sp))) sp"
  using assms
proof (induction pre arbitrary: fr s)
  case Nil
  then show ?case by simp
next
  case (Cons ev pre)
  from Cons.prems obtain s1 where d: "deliver ev this s = Inr s1"
    by (auto split: sum.splits)
  from deliver_kept [OF d] obtain es1 where es1: "effects s1 = effects s @ es1"
    by (auto simp add: kept_def)
  define fr1 where "fr1 = foldl (signalled this) fr es1"
  from Cons.prems d es1 have ne: "\<not> exited fr1"
    by (auto simp add: fr1_def Let_def split: if_splits)
  with Cons.prems d es1 have x: "syncCancel_exec pre this fr1 s1 = Inr (sp, None)"
    by (simp add: fr1_def Let_def)
  from syncCancel_exec_kept [OF x] obtain es where es: "effects sp = effects s1 @ es"
    by (auto simp add: kept_def)
  from Cons.IH [OF x] d es1 ne es show ?case by (simp add: fr1_def Let_def)
qed

lemma syncCancel_sent:
  assumes "connectToServer this pr s = Inr (s0, True)" and "uuid \<noteq> []"
  shows "syncCancel this pr uuid reqMsgId evs s =
           (case syncCancel_exec evs this (entered uuid reqMsgId)
                   (emits [Written this (cancel_frame uuid reqMsgId)]
                     (update_object this
                        (\<lambda>ob. ob\<lparr>m_pending := qmap_insert uuid [] (m_pending ob)\<rparr>)
                        (connect this (CancelSlot uuid) s))) of
              Inl e \<Rightarrow> Inl e
            | Inr (s2, None) \<Rightarrow> Inr (s2, None)
            | Inr (s2, Some rest) \<Rightarrow> Inr (s2, Some (True, rest)))"
proof -
  from assms(1) have "s0 = s" by (rule connectToServer_connected)
  with assms show ?thesis
    by (simp add: syncCancel_def cancel_def Let_def cancel_frame_def)
qed

lemma entered_fields [simp]:
  "sc_msgid (entered uuid reqMsgId) = uuid" "sc_reqMsgId (entered uuid reqMsgId) = reqMsgId"
  "finish (entered uuid reqMsgId) = (reqMsgId = [])" "c1 (entered uuid reqMsgId)"
  "c2 (entered uuid reqMsgId)" "\<not> exited (entered uuid reqMsgId)"
  by (simp_all add: entered_def)

text \<open>
  C2.  \<open>syncCancel\<close> having sent its cancel frame; the observations are the
  \<open>cancelComplete\<close> for the cancel id and the \<open>executeComplete\<close> for the target id
  emitted on the proxy since the frame was written.  When the call returns and a target
  was given, a cancellation reply has been observed, and if the first one reports success
  an execute completion for the target has been observed as well.  And a call that is
  still waiting after the events \<open>pre\<close> returns with the very next event \<open>ev\<close>, leaving
  the later ones, as soon as that event brings the observations to hold a cancellation
  reply together with either no target, or a failure in the first reply, or an execute
  completion for the target, in whichever order the two came.
\<close>

theorem syncCancel_waits_for_both:
  assumes sent: "connectToServer this pr s = Inr (s0, True)" and uuid: "uuid \<noteq> []"
  shows "(\<forall>s' rest. syncCancel this pr uuid reqMsgId evs s = Inr (s', Some (True, rest)) \<longrightarrow>
            reqMsgId \<noteq> [] \<longrightarrow>
            (\<exists>m ms. List.map_filter (cancel_reply this uuid)
                       (drop (Suc (length (effects s))) (effects s')) = m # ms
               \<and> (qmap_value m ''hResult'' = QString ''WFS_SUCCESS'' \<longrightarrow>
                    List.map_filter (execute_reply this reqMsgId)
                      (drop (Suc (length (effects s))) (effects s')) \<noteq> [])))
       \<and> (\<forall>sp sq m ms. syncCancel this pr uuid reqMsgId pre s = Inr (sp, None) \<longrightarrow>
            deliver ev this sp = Inr sq \<longrightarrow>
            List.map_filter (cancel_reply this uuid)
              (drop (Suc (length (effects s))) (effects sq)) = m # ms \<longrightarrow>
            (reqMsgId = [] \<or> qmap_value m ''hResult'' \<noteq> QString ''WFS_SUCCESS''
               \<or> List.map_filter (execute_reply this reqMsgId)
                    (drop (Suc (length (effects s))) (effects sq)) \<noteq> []) \<longrightarrow>
            syncCancel this pr uuid reqMsgId (pre @ ev # post) s = Inr (sq, Some (True, post)))"
proof (intro conjI allI impI)
  let ?sc = "emits [Written this (cancel_frame uuid reqMsgId)]
                     (update_object this
                        (\<lambda>ob. ob\<lparr>m_pending := qmap_insert uuid [] (m_pending ob)\<rparr>)
                        (connect this (CancelSlot uuid) s))"
  have len: "length (effects ?sc) = Suc (length (effects s))" by simp
  {
    fix s' rest
    assume ret: "syncCancel this pr uuid reqMsgId evs s = Inr (s', Some (True, rest))"
      and target: "reqMsgId \<noteq> []"
    from ret have x: "syncCancel_exec evs this (entered uuid reqMsgId) ?sc = Inr (s', Some rest)"
      unfolding syncCancel_sent [OF sent uuid]
      by (auto split: sum.splits option.splits)
    from syncCancel_exec_observed [OF x] 
    have "exited (foldl (signalled this) (entered uuid reqMsgId)
                    (drop (Suc (length (effects s))) (effects s')))"
      unfolding len by simp
    then show "\<exists>m ms. List.map_filter (cancel_reply this uuid)
                       (drop (Suc (length (effects s))) (effects s')) = m # ms
               \<and> (qmap_value m ''hResult'' = QString ''WFS_SUCCESS'' \<longrightarrow>
                    List.map_filter (execute_reply this reqMsgId)
                      (drop (Suc (length (effects s))) (effects s')) \<noteq> [])"
      unfolding exited_fold using target by (auto simp add: neq_Nil_conv)
  }
  {
    fix sp sq m ms
    assume blocked: "syncCancel this pr uuid reqMsgId pre s = Inr (sp, None)"
      and d: "deliver ev this sp = Inr sq"
      and reply: "List.map_filter (cancel_reply this uuid)
              (drop (Suc (length (effects s))) (effects sq)) = m # ms"
      and enough: "reqMsgId = [] \<or> qmap_value m ''hResult'' \<noteq> QString ''WFS_SUCCESS''
               \<or> List.map_filter (execute_reply this reqMsgId)
                    (drop (Suc (length (effects s))) (effects sq)) \<noteq> []"
    from blocked have x: "syncCancel_exec pre this (entered uuid reqMsgId) ?sc = Inr (sp, None)"
      unfolding syncCancel_sent [OF sent uuid]
      by (auto split: sum.splits option.splits)
    from syncCancel_exec_kept [OF x] obtain esp where esp: "effects sp = effects ?sc @ esp"
      by (auto simp add: kept_def)
    from deliver_kept [OF d] obtain esq where esq: "effects sq = effects sp @ esq"
      by (auto simp add: kept_def)
    have fold: "foldl (signalled this)
                  (foldl (signalled this) (entered uuid reqMsgId)
                     (drop (length (effects ?sc)) (effects sp)))
                  (drop (length (effects sp)) (effects sq))
                = foldl (signalled this) (entered uuid reqMsgId)
                    (drop (Suc (length (effects s))) (effects sq))"
      using esp esq by simp
    have "exited (foldl (signalled this) (entered uuid reqMsgId)
                    (drop (Suc (length (effects s))) (effects sq)))"
      unfolding exited_fold using reply enough by auto
    with fold have "syncCancel_exec (ev # post) this
             (foldl (signalled this) (entered uuid reqMsgId)
                (drop (length (effects ?sc)) (effects sp))) sp = Inr (sq, Some post)"
      using d by (simp add: Let_def)
    with syncCancel_exec_resumes [OF x, of "ev # post"]
    have "syncCancel_exec (pre @ ev # post) this (entered uuid reqMsgId) ?sc = Inr (sq, Some post)"
      by simp
    then show "syncCancel this pr uuid reqMsgId (pre @ ev # post) s = Inr (sq, Some (True, post))"
      unfolding syncCancel_sent [OF sent uuid] by simp
  }
qed

text \<open>The proxy at 10 cancels its acknowledged \<open>EJECT\<close>.  With the completion of the
  \<open>EJECT\<close> alone the call is still waiting; the cancellation reply, which reports
  success, then ends it and the event after that is left.  With the reply first and the
  completion second the call returns having observed both.\<close>

theorem syncCancel_waits_for_both_witness:
  "snd (projr (syncCancel 10 online ''{c}'' ''{e}'' [ReadyRead [eject_failed]] crd1_acked)) = None
   \<and> qmap_value cancel_done ''hResult'' = QString ''WFS_SUCCESS''
   \<and> snd (projr (syncCancel 10 online ''{c}'' ''{e}''
                   ([ReadyRead [eject_failed]] @ ReadyRead [cancel_done] # [SocketDisconnected])
                   crd1_acked)) = Some (True, [SocketDisconnected])
   \<and> (\<exists>m ms. List.map_filter (cancel_reply 10 ''{c}'')
                (drop (Suc (length (effects crd1_acked)))
                   (effects (fst (projr (syncCancel 10 online ''{c}'' ''{e}''
                      [ReadyRead [cancel_done], ReadyRead [eject_failed]] crd1_acked))))) = m # ms
         \<and> List.map_filter (execute_reply 10 ''{e}'')
                (drop (Suc (length (effects crd1_acked)))
                   (effects (fst (projr (syncCancel 10 online ''{c}'' ''{e}''
                      [ReadyRead [cancel_done], ReadyRead [eject_failed]] crd1_acked))))) \<noteq> [])"
proof -
  let ?s = crd1_acked
  let ?pre = "[ReadyRead [eject_failed]]"
  let ?blocked = "syncCancel 10 online ''{c}'' ''{e}'' ?pre ?s"
  let ?sp = "fst (projr ?blocked)"
  let ?sq = "projr (deliver (ReadyRead [cancel_done]) 10 ?sp)"
  let ?both = "syncCancel 10 online ''{c}'' ''{e}''
                 [ReadyRead [cancel_done], ReadyRead [eject_failed]] ?s"
  have "\<not> isl (connectToServer 10 online ?s)" "snd (projr (connectToServer 10 online ?s))"
    by code_simp+
  then have sent: "connectToServer 10 online ?s = Inr (fst (projr (connectToServer 10 online ?s)), True)"
    by (metis prod.collapse sum.collapse(2))
  have uuid: "''{c}'' \<noteq> []" by simp
  note T = syncCancel_waits_for_both [OF sent uuid]
  have b1: "\<not> isl ?blocked" by code_simp
  have b2: "snd (projr ?blocked) = None" by code_simp
  from b1 have "?blocked = Inr (?sp, snd (projr ?blocked))" by simp
  with b2 have blocked: "?blocked = Inr (?sp, None)" by simp
  have "\<not> isl (deliver (ReadyRead [cancel_done]) 10 ?sp)" by code_simp
  then have d: "deliver (ReadyRead [cancel_done]) 10 ?sp = Inr ?sq" by simp
  have reply: "List.map_filter (cancel_reply 10 ''{c}'')
                 (drop (Suc (length (effects ?s))) (effects ?sq)) = cancel_done # []"
    by code_simp
  have completion: "List.map_filter (execute_reply 10 ''{e}'')
                 (drop (Suc (length (effects ?s))) (effects ?sq)) \<noteq> []"
    by code_simp
  have ok: "qmap_value cancel_done ''hResult'' = QString ''WFS_SUCCESS''" by code_simp
  from T [of "''{e}''" _ ?pre "ReadyRead [cancel_done]" "[SocketDisconnected]"]
    blocked d reply completion
  have returns: "syncCancel 10 online ''{c}'' ''{e}''
                   (?pre @ ReadyRead [cancel_done] # [SocketDisconnected]) ?s
                 = Inr (?sq, Some (True, [SocketDisconnected]))"
    by blast
  have r1: "\<not> isl ?both" by code_simp
  have r2: "snd (projr ?both) = Some (True, [])" by code_simp
  from r1 have "?both = Inr (fst (projr ?both), snd (projr ?both))" by simp
  with r2 have both: "?both = Inr (fst (projr ?both), Some (True, []))" by simp
  have target: "''{e}'' \<noteq> []" by simp
  from T [of "''{e}''" "[ReadyRead [cancel_done], ReadyRead [eject_failed]]"] both target
  obtain m ms where
    m: "List.map_filter (cancel_reply 10 ''{c}'')
          (drop (Suc (length (effects ?s))) (effects (fst (projr ?both)))) = m # ms"
    and c: "qmap_value m ''hResult'' = QString ''WFS_SUCCESS'' \<longrightarrow>
          List.map_filter (execute_reply 10 ''{e}'')
            (drop (Suc (length (effects ?s))) (effects (fst (projr ?both)))) \<noteq> []"
    by blast
  have "List.map_filter (cancel_reply 10 ''{c}'')
          (drop (Suc (length (effects ?s))) (effects (fst (projr ?both)))) = [cancel_done]"
    by code_simp
  with m have "m = cancel_done" by simp
  with c ok have "List.map_filter (execute_reply 10 ''{e}'')
            (drop (Suc (length (effects ?s))) (effects (fst (projr ?both)))) \<noteq> []"
    by simp
  with m b2 ok returns show ?thesis by simp
qed



section \<open>Reading frames off the buffer\<close>

lemma progress_empty:
  assumes "progress decode"
  shows "decode [] = None"
proof (cases "decode []")
  case None
  then show ?thesis .
next
  case (Some p)
  obtain msg rest where "p = (msg, rest)" by (cases p)
  with Some assms have "length rest < length ([] :: 8 word list)"
    unfolding progress_def by blast
  then show ?thesis by simp
qed

lemma readyRead_frames:
  assumes "progress decode"
  shows "length buf \<le> n \<Longrightarrow>
         readyRead decode buf this s =
           Some (case emit_all (fst (frames n decode buf)) this s of
                   Inl e \<Rightarrow> Inl e
                 | Inr s' \<Rightarrow> Inr (s', snd (frames n decode buf)))
         \<and> decode (snd (frames n decode buf)) = None"
proof (induction n arbitrary: buf s)
  case 0
  then have "buf = []" by simp
  with progress_empty [OF assms] show ?case
    by (simp add: readyRead.simps)
next
  case (Suc n)
  show ?case
  proof (cases "decode buf")
    case None
    then show ?thesis by (simp add: readyRead.simps)
  next
    case (Some p)
    obtain msg rest where p: "p = (msg, rest)" by (cases p)
    from assms Some p have "length rest < length buf" by (simp add: progress_def)
    with Suc.prems have short: "length rest \<le> n" by simp
    note IH = Suc.IH [OF short]
    have fr: "fst (frames (Suc n) decode buf) = msg # fst (frames n decode rest)"
      "snd (frames (Suc n) decode buf) = snd (frames n decode rest)"
      using Some p by simp_all
    have unfold: "readyRead decode buf this s =
        (case emit_message this msg s of
           Inl e \<Rightarrow> Some (Inl e)
         | Inr s' \<Rightarrow> readyRead decode rest this s')"
      using Some p by (subst readyRead.simps) simp
    show ?thesis
    proof (cases "emit_message this msg s")
      case (Inl e)
      with IH [of s] show ?thesis unfolding fr unfold by simp
    next
      case (Inr s1)
      with IH [of s1] show ?thesis unfolding fr unfold by simp
    qed
  qed
qed

text \<open>
  C7.  On a buffer that does not hold a complete frame the read loop takes no byte and
  emits no message: it returns with the state and the buffer as they were.  With a decoder
  that takes bytes off the buffer for every frame it reads, the loop returns, having
  emitted the frames of the buffer one after the other, each dispatched before the next is
  decoded, and the bytes it leaves hold no complete frame.
\<close>

theorem readyRead_transactional:
  "(decode buf = None \<longrightarrow> readyRead decode buf this s = Some (Inr (s, buf)))
   \<and> (progress decode \<longrightarrow>
        readyRead decode buf this s =
          Some (case emit_all (fst (frames (length buf) decode buf)) this s of
                  Inl e \<Rightarrow> Inl e
                | Inr s' \<Rightarrow> Inr (s', snd (frames (length buf) decode buf)))
        \<and> decode (snd (frames (length buf) decode buf)) = None)"
proof (intro conjI impI)
  assume "decode buf = None"
  then show "readyRead decode buf this s = Some (Inr (s, buf))"
    by (simp add: readyRead.simps)
next
  assume p: "progress decode"
  from readyRead_frames [OF p order_refl, of buf this s]
  show "readyRead decode buf this s =
          Some (case emit_all (fst (frames (length buf) decode buf)) this s of
                  Inl e \<Rightarrow> Inl e
                | Inr s' \<Rightarrow> Inr (s', snd (frames (length buf) decode buf)))"
    and "decode (snd (frames (length buf) decode buf)) = None"
    by simp_all
qed

text \<open>Two frames and the beginning of a third are buffered on the proxy at 10: both are
  emitted and the two bytes of the third stay; on those two bytes alone nothing
  happens.\<close>

theorem readyRead_transactional_witness:
  "framed [2, 9] = None
   \<and> readyRead framed [2, 9] 10 crd1 = Some (Inr (crd1, [2, 9]))
   \<and> progress framed
   \<and> readyRead framed [1, 7, 0, 2, 9] 10 crd1 =
       Some (case emit_all [service_event, service_event] 10 crd1 of
               Inl e \<Rightarrow> Inl e
             | Inr s' \<Rightarrow> Inr (s', [2, 9]))
   \<and> effects (projr (emit_all [service_event, service_event] 10 crd1))
       = [ServiceEventRecieved 10 service_event, ServiceEventRecieved 10 service_event]"
proof -
  have incomplete: "framed [2, 9] = None" by code_simp
  have p: "progress framed"
    by (auto simp add: progress_def framed_def split: list.splits if_splits)
  have f: "fst (frames (length [1, 7, 0, 2, 9 :: 8 word]) framed [1, 7, 0, 2, 9])
             = [service_event, service_event]"
    "snd (frames (length [1, 7, 0, 2, 9 :: 8 word]) framed [1, 7, 0, 2, 9]) = [2, 9]"
    by code_simp+
  have e: "effects (projr (emit_all [service_event, service_event] 10 crd1))
       = [ServiceEventRecieved 10 service_event, ServiceEventRecieved 10 service_event]"
    by code_simp
  from readyRead_transactional [of framed "[2, 9]" 10 crd1] incomplete
  have 1: "readyRead framed [2, 9] 10 crd1 = Some (Inr (crd1, [2, 9]))" by simp
  from readyRead_transactional [of framed "[1, 7, 0, 2, 9]" 10 crd1] p
  have 2: "readyRead framed [1, 7, 0, 2, 9] 10 crd1 =
       Some (case emit_all [service_event, service_event] 10 crd1 of
               Inl e \<Rightarrow> Inl e
             | Inr s' \<Rightarrow> Inr (s', [2, 9]))"
    unfolding f by simp
  from incomplete 1 p 2 e show ?thesis by simp
qed

section \<open>Connection failures\<close>

lemma connect_warnings_append [simp]:
  "connect_warnings on (es @ es') = connect_warnings on es @ connect_warnings on es'"
  by (simp add: connect_warnings_def)

lemma connect_warnings_one [simp]:
  "connect_warnings on [ConnectWarning n errorString] =
     (if n = on then [ConnectWarning n errorString] else [])"
  by (simp add: connect_warnings_def)

lemma conn_err_warned:
  assumes "warned_once s"
  shows "warned_once (fst (conn_err this errorString s))"
proof (cases "name_of s this \<in> warnOnce s")
  case True
  with assms show ?thesis by (simp add: conn_err_def Let_def)
next
  case False
  with assms have none: "connect_warnings (name_of s this) (effects s) = []"
    unfolding warned_once_def by blast
  show ?thesis
    unfolding warned_once_def
  proof (intro allI)
    fix on
    from assms have "length (connect_warnings on (effects s)) \<le> 1"
      and "connect_warnings on (effects s) \<noteq> [] \<longrightarrow> on \<in> warnOnce s"
      unfolding warned_once_def by blast+
    with False none
    show "length (connect_warnings on (effects (fst (conn_err this errorString s)))) \<le> 1 \<and>
          (connect_warnings on (effects (fst (conn_err this errorString s))) \<noteq> [] \<longrightarrow>
           on \<in> warnOnce (fst (conn_err this errorString s)))"
      by (auto simp add: conn_err_def Let_def)
  qed
qed

text \<open>On a proxy that holds a socket \<open>connectToServer\<close> returns, and it returns false
  exactly when the socket had to be waited for and the wait failed: a refused connection
  as well as a failed handshake on an \<open>ssl\<close> proxy.\<close>

lemma connectToServer_warned:
  assumes io: "m_io (objects s this) \<noteq> None" and w: "warned_once s"
  shows "\<exists>s1. connectToServer this pr s
                = Inr (s1, \<not> must_wait (objects s this) pr \<or> sock_wait pr)
           \<and> warned_once s1 \<and> objects s1 = objects s"
proof -
  from io obtain p where p: "m_io (objects s this) = Some p" by auto
  have e: "conn_err this errorString s = (fst (conn_err this errorString s), False)"
    for errorString
    by (simp add: conn_err_def Let_def)
  have o: "objects (fst (conn_err this errorString s)) = objects s" for errorString
    by (simp add: conn_err_def Let_def)
  show ?thesis
  proof (cases "must_wait (objects s this) pr \<and> \<not> sock_wait pr")
    case True
    with p have "connectToServer this pr s = Inr (conn_err this (sock_errorString pr) s)"
      by (auto simp add: connectToServer_def must_wait_def)
    with e [of "sock_errorString pr"] True
    have "connectToServer this pr s
            = Inr (fst (conn_err this (sock_errorString pr) s),
                   \<not> must_wait (objects s this) pr \<or> sock_wait pr)"
      by simp
    with conn_err_warned [OF w, of this "sock_errorString pr"] o [of "sock_errorString pr"]
    show ?thesis by blast
  next
    case False
    with p have "connectToServer this pr s = Inr (s, True)"
      by (auto simp add: connectToServer_def must_wait_def)
    with False w show ?thesis by auto
  qed
qed

lemma retry_warned:
  "\<forall>a\<in>set as. m_io (objects s (fst a)) \<noteq> None \<Longrightarrow> warned_once s \<Longrightarrow>
   \<exists>s'. retry as s
          = Inr (s', map (\<lambda>a. \<not> must_wait (objects s (fst a)) (snd a) \<or> sock_wait (snd a)) as)
     \<and> warned_once s' \<and> objects s' = objects s"
proof (induction as arbitrary: s)
  case Nil
  then show ?case by simp
next
  case (Cons a as)
  from Cons.prems have io: "m_io (objects s (fst a)) \<noteq> None" by simp
  from connectToServer_warned [OF io Cons.prems(2), of "snd a"] obtain s1 where
    c: "connectToServer (fst a) (snd a) s
          = Inr (s1, \<not> must_wait (objects s (fst a)) (snd a) \<or> sock_wait (snd a))"
    and w1: "warned_once s1" and o1: "objects s1 = objects s"
    by blast
  from Cons.prems(1) o1 have "\<forall>a\<in>set as. m_io (objects s1 (fst a)) \<noteq> None" by simp
  from Cons.IH [OF this w1] obtain s' where
    r: "retry as s1
          = Inr (s', map (\<lambda>a. \<not> must_wait (objects s1 (fst a)) (snd a) \<or> sock_wait (snd a)) as)"
    and w': "warned_once s'" and o': "objects s' = objects s1"
    by blast
  from c r o1 have "retry (a # as) s
      = Inr (s', map (\<lambda>a. \<not> must_wait (objects s (fst a)) (snd a) \<or> sock_wait (snd a)) (a # as))"
    by simp
  with w' o' o1 show ?case by simp
qed

text \<open>
  The sibling paths.  For proxies that hold a socket, and a log in the state that
  \<open>warnOnce\<close> maintains: however many attempts are made, on whichever of the proxies,
  every attempt returns, with false exactly when the socket had to be waited for and the
  wait failed, and for every device identity at most one connection warning is in the log
  afterwards.
\<close>

lemma socket_failures_warn_once:
  assumes "\<forall>a\<in>set as. m_io (objects s (fst a)) \<noteq> None" and "warned_once s"
  shows "\<exists>s'. retry as s
          = Inr (s', map (\<lambda>a. \<not> must_wait (objects s (fst a)) (snd a) \<or> sock_wait (snd a)) as)
         \<and> (\<forall>on. length (connect_warnings on (effects s')) \<le> 1)"
proof -
  from retry_warned [OF assms] obtain s' where
    "retry as s
       = Inr (s', map (\<lambda>a. \<not> must_wait (objects s (fst a)) (snd a) \<or> sock_wait (snd a)) as)"
    and "warned_once s'"
    by blast
  moreover from \<open>warned_once s'\<close> have "\<forall>on. length (connect_warnings on (effects s')) \<le> 1"
    unfolding warned_once_def by blast
  ultimately show ?thesis by blast
qed

text \<open>An address that is neither \<open>local\<close> nor begins with \<open>tcp://\<close> or \<open>ssl://\<close>
  gives no socket and one critical log line, outside \<open>warnOnce\<close>.\<close>

lemma createSocket_unknown_address:
  assumes "deviceAddress \<noteq> ''local''" and "\<not> startsWith deviceAddress ''tcp://''"
    and "\<not> startsWith deviceAddress ''ssl://''"
  shows "snd (createSocket toUInt this p deviceAddress deviceId s) = None
         \<and> effects (fst (createSocket toUInt this p deviceAddress deviceId s))
             = effects s @ [AddressCritical deviceId deviceAddress]
         \<and> warnOnce (fst (createSocket toUInt this p deviceAddress deviceId s)) = warnOnce s"
  using assms by (simp add: createSocket_def Let_def bad_address_def)

text \<open>No proxy that was constructed without a socket gets a result from
  \<open>connectToServer\<close>, whatever the socket would have answered.\<close>

lemma connectToServer_null:
  "m_io (objects s this) = None \<Longrightarrow> connectToServer this pr s = Inl NullDereference"
  by (simp add: connectToServer_def)

text \<open>
  C8.  The claim holds on the paths above and fails on the address \<open>ftp://x\<close>.  In a
  build without assertions the proxy \<open>ftp1\<close> is constructed on a null device with one
  critical log line; its \<open>connectToServer\<close> then reads the state of the socket through
  the null pointer: it does not return false, logs no connection warning and does not put
  the identity into \<open>warnOnce\<close>, and so does every request (\<open>send\<close>) on the proxy.  In a
  build with assertions the constructor stops at \<open>Q_ASSERT(m_io)\<close>.
\<close>

theorem unknown_address_null_device:
  "effects ftp1 = [AddressCritical ''CRD1'' ''ftp://x'']
   \<and> m_io (objects ftp1 10) = None
   \<and> connectToServer 10 refused ftp1 = Inl NullDereference
   \<and> connectToServer 10 online ftp1 = Inl NullDereference
   \<and> send 10 refused ''{e}'' ''WFSExecute'' ''EJECT'' Invalid ftp1 = Inl NullDereference
   \<and> connect_warnings ''CRD1'' (effects ftp1) = []
   \<and> ''CRD1'' \<notin> warnOnce ftp1
   \<and> QXfsSocketStream port80 10 100 ''ftp://x'' ''CRD1'' ''CRD'' (process_start True)
       = Inl AssertionFailed"
proof -
  have 1: "effects ftp1 = [AddressCritical ''CRD1'' ''ftp://x'']" by code_simp
  have 2: "m_io (objects ftp1 10) = None" by code_simp
  from 2 have 3: "connectToServer 10 pr ftp1 = Inl NullDereference" for pr
    by (rule connectToServer_null)
  have 4: "send 10 refused ''{e}'' ''WFSExecute'' ''EJECT'' Invalid ftp1 = Inl NullDereference"
    by (simp add: send_def 3)
  have 5: "connect_warnings ''CRD1'' (effects ftp1) = []" by code_simp
  have 6: "''CRD1'' \<notin> warnOnce ftp1" by code_simp
  have "case QXfsSocketStream port80 10 100 ''ftp://x'' ''CRD1'' ''CRD'' (process_start True) of
          Inl e \<Rightarrow> e = AssertionFailed
        | Inr s' \<Rightarrow> False"
    by code_simp
  then have 7: "QXfsSocketStream port80 10 100 ''ftp://x'' ''CRD1'' ''CRD'' (process_start True)
                  = Inl AssertionFailed"
    by (simp split: sum.splits)
  from 1 2 3 4 5 6 7 show ?thesis by (intro conjI)
qed

text \<open>So the attempt on \<open>ftp1\<close> has no result, false or other, and neither has the
  construction where assertions are compiled in.\<close>

theorem unknown_address_null_device_witness:
  "(\<nexists>s' ok. connectToServer 10 refused ftp1 = Inr (s', ok))
   \<and> (\<nexists>s' msgid. send 10 refused ''{e}'' ''WFSExecute'' ''EJECT'' Invalid ftp1 = Inr (s', msgid))
   \<and> (\<nexists>s'. QXfsSocketStream port80 10 100 ''ftp://x'' ''CRD1'' ''CRD'' (process_start True)
               = Inr s')"
  using unknown_address_null_device by simp

end
